theory Spec2Isabelle
  imports
    Complex_Main
    "HOL-Library.Sublist"
    "HOL-Library.Char_ord"
    "HOL-Library.List_Lexorder"
begin

section \<open>JavaScript strings and arrays\<close>

text \<open>
  A JavaScript string is modelled as a \<^typ>\<open>string\<close>: a list of code units below 256.
  The operations below are the built-ins the record stores call: \<open>String.prototype.trim\<close>,
  \<open>split\<close>, \<open>startsWith\<close>, \<open>includes\<close>, \<open>Array.prototype.join\<close>, \<open>slice\<close>, \<open>findIndex\<close>.
\<close>

definition nl :: char where
  "nl = CHR 0x0A"

text \<open>The white space and line terminators of ECMAScript among the code units below 256:
  TAB, LF, VT, FF, CR, SP and NBSP.\<close>

definition isWhiteSpace :: "char \<Rightarrow> bool" where
  "isWhiteSpace c \<longleftrightarrow>
     c \<in> set [CHR 0x09, CHR 0x0A, CHR 0x0B, CHR 0x0C, CHR 0x0D, CHR 0x20, CHR 0xA0]"

definition trim :: "string \<Rightarrow> string" where
  "trim s = rev (dropWhile isWhiteSpace (rev (dropWhile isWhiteSpace s)))"

text \<open>\<open>s.trimStart()\<close> and \<open>s.trimEnd()\<close>; \<open>trim\<close> is both.\<close>

definition trimStart :: "string \<Rightarrow> string" where
  "trimStart s = dropWhile isWhiteSpace s"

definition trimEnd :: "string \<Rightarrow> string" where
  "trimEnd s = rev (dropWhile isWhiteSpace (rev s))"

text \<open>\<open>s.split(sep)\<close> for a one-character separator: the empty string gives one empty piece.\<close>

fun splitOn :: "char \<Rightarrow> string \<Rightarrow> string list" where
  "splitOn sep [] = [[]]"
| "splitOn sep (c # cs) =
     (if c = sep then [] # splitOn sep cs
      else (case splitOn sep cs of
              [] \<Rightarrow> [[c]]
            | piece # pieces \<Rightarrow> (c # piece) # pieces))"

text \<open>\<open>pieces.join(sep)\<close>.\<close>

fun joinWith :: "char \<Rightarrow> string list \<Rightarrow> string" where
  "joinWith sep [] = []"
| "joinWith sep [piece] = piece"
| "joinWith sep (piece # pieces) = piece @ sep # joinWith sep pieces"

definition startsWith :: "string \<Rightarrow> string \<Rightarrow> bool" where
  "startsWith s p = prefix p s"

fun str_includes :: "string \<Rightarrow> string \<Rightarrow> bool" where
  "str_includes [] t = (t = [])"
| "str_includes (c # cs) t = (prefix t (c # cs) \<or> str_includes cs t)"

text \<open>\<open>xs.slice(start)\<close> for an integer \<open>start\<close>: a negative start counts from the end,
  and both ends are clamped to the array.\<close>

definition js_slice :: "'a list \<Rightarrow> int \<Rightarrow> 'a list" where
  "js_slice xs start =
     (let len = int (length xs);
          k = (if start < 0 then max (len + start) 0 else min start len)
      in drop (nat k) xs)"

text \<open>\<open>xs.findIndex(pred)\<close>: \<open>None\<close> stands for the result \<open>-1\<close>.\<close>

fun findIndex :: "('a \<Rightarrow> bool) \<Rightarrow> 'a list \<Rightarrow> nat option" where
  "findIndex pred [] = None"
| "findIndex pred (x # xs) =
     (if pred x then Some 0 else map_option Suc (findIndex pred xs))"

section \<open>The file system\<close>

text \<open>
  The three stream files of a root directory: \<open>path.join(root, LEDGERSYNC_DIR, file)\<close> with
  \<open>file\<close> one of \<open>LEDGER_FILE\<close>, \<open>PROMISES_FILE\<close>, \<open>REPORTS_FILE\<close>. A path is the pair of the
  root and the file's name; \<open>dirs\<close> holds the roots whose \<open>.ledgersync\<close> directory exists.
\<close>

datatype store_file = LEDGER_FILE | PROMISES_FILE | REPORTS_FILE

type_synonym path = "string \<times> store_file"

record fs =
  dirs :: "string set"
  files :: "path \<Rightarrow> string option"

definition existsSync :: "fs \<Rightarrow> path \<Rightarrow> bool" where
  "existsSync s p \<longleftrightarrow> files s p \<noteq> None"

definition readFileSync :: "fs \<Rightarrow> path \<Rightarrow> string" where
  "readFileSync s p = (case files s p of None \<Rightarrow> [] | Some content \<Rightarrow> content)"

definition mkdirSync :: "fs \<Rightarrow> string \<Rightarrow> fs" where
  "mkdirSync s rootDir = s\<lparr>dirs := insert rootDir (dirs s)\<rparr>"

definition appendFileSync :: "fs \<Rightarrow> path \<Rightarrow> string \<Rightarrow> fs" where
  "appendFileSync s p line = s\<lparr>files := (files s)(p \<mapsto> readFileSync s p @ line)\<rparr>"

definition writeFileSync :: "fs \<Rightarrow> path \<Rightarrow> string \<Rightarrow> fs" where
  "writeFileSync s p content = s\<lparr>files := (files s)(p \<mapsto> content)\<rparr>"

definition getLedgerPath :: "string \<Rightarrow> path" where
  "getLedgerPath rootDir = (rootDir, LEDGER_FILE)"

definition getPromisesPath :: "string \<Rightarrow> path" where
  "getPromisesPath rootDir = (rootDir, PROMISES_FILE)"

definition getReportsPath :: "string \<Rightarrow> path" where
  "getReportsPath rootDir = (rootDir, REPORTS_FILE)"

section \<open>Errors and the platform\<close>

text \<open>The exceptions the stores throw: \<open>Invalid JSON on line n: msg\<close>, \<open>Invalid entry: errs\<close>,
  \<open>Invalid promise: errs\<close>, \<open>Invalid report: errs\<close>.\<close>

datatype error =
    InvalidJson nat string
  | InvalidEntry "string list"
  | InvalidPromise "string list"
  | InvalidReport "string list"

text \<open>
  What a store takes from outside the repository, for its kind of record \<open>'r\<close>:
  \<open>JSON.parse\<close> (\<open>Inl msg\<close> when it throws a \<open>SyntaxError\<close>), \<open>JSON.stringify\<close>, and the
  validator that Ajv compiles from the kind's JSON schema, with the errors of its last run.
  The schema files are not part of the sources, so the validator is a parameter.
\<close>

record 'r platform =
  parse :: "string \<Rightarrow> string + 'r"
  stringify :: "'r \<Rightarrow> string"
  validate :: "'r \<Rightarrow> bool"
  validateErrors :: "'r \<Rightarrow> string list"

section \<open>types.ts\<close>

text \<open>
  The record shapes of \<open>types.ts\<close>. An optional field is an \<open>option\<close>. The fields \<open>id\<close>,
  \<open>timestamp\<close>, \<open>tags\<close>, \<open>context\<close> and the ones that several interfaces share carry the
  interface's name as a prefix. The optional blocks of an entry that no store function
  reads (\<open>grounding\<close> and the type-specific data) and a tool call's \<open>parameters\<close> are left out.
\<close>

record AgentInfo =
  agent_name :: string
  agent_model :: "string option"
  agent_version :: "string option"

record SessionInfo =
  session_id :: string
  entryIndex :: int
  parentEntryId :: "string option"

datatype EntryType = Handoff | Transition | Implementation | Bugfix | Review

datatype ActionType = Create | Modify | Delete | Analyze | Plan | Debug | Refactor | Other

record ActionInfo =
  action_type :: ActionType
  action_summary :: string
  action_description :: "string option"

record ReasoningInfo =
  intent :: string
  considerations :: "string list option"
  assumptions :: "string list option"
  uncertainties :: "string list option"
  confidence :: "real option"

record ToolCall =
  tool_name :: string

datatype ArtifactAction = Created | Modified | Deleted | Read

record ArtifactChange =
  artifact_path :: string
  artifact_action :: ArtifactAction
  linesChanged :: "int option"
  artifact_summary :: "string option"

record LedgerEntry =
  entry_id :: string
  entry_timestamp :: string
  agent :: AgentInfo
  session :: SessionInfo
  entryType :: "EntryType option"
  action :: ActionInfo
  reasoning :: ReasoningInfo
  tools :: "ToolCall list"
  artifacts :: "ArtifactChange list"
  userPrompt :: "string option"
  entry_tags :: "string list option"
  entry_relatedEntries :: "string list option"

datatype PromiseType = WillDo | WillNotDo | WillMaintain | WillProvide

datatype PromiseStatus = Active | Fulfilled | Broken | Withdrawn | Superseded

datatype PromiseScope = SessionScope | ProjectScope | PermanentScope

record Promiser =
  promiser_agent :: string
  promiser_session :: "string option"

record Promisee =
  promisee_agent :: string
  promisee_scope :: "PromiseScope option"

record PromiseBody =
  promise_type :: PromiseType
  promise_summary :: string
  promise_description :: "string option"
  conditions :: "string list option"

record PromiseContext =
  context_relatedEntries :: "string list option"
  context_artifacts :: "string list option"
  constraintRefs :: "string list option"
  context_userPrompt :: "string option"

record PromiseEntry =
  promise_id :: string
  promise_timestamp :: string
  promiser :: Promiser
  promisee :: Promisee
  promise :: PromiseBody
  promise_context :: "PromiseContext option"
  status :: PromiseStatus
  resolvedBy :: "string option"
  resolvedAt :: "string option"
  supersededBy :: "string option"
  promise_tags :: "string list option"

datatype ReporterRole = Actor | Witness | Human

datatype VerdictStatus = VerdictFulfilled | VerdictPartial | VerdictBroken

record Reporter =
  reporter_agent :: string
  role :: ReporterRole
  reporter_session :: "string option"

record ReportBody =
  workCompleted :: string
  remaining :: "string list option"
  blockers :: "string list option"
  confidenceInCompletion :: real

record Verdict =
  verdict_status :: VerdictStatus
  verdict_reasoning :: string

record WorkReport =
  report_id :: string
  report_timestamp :: string
  reporter :: Reporter
  promiseId :: string
  report :: ReportBody
  verdict :: "Verdict option"
  report_relatedEntries :: "string list option"
  report_tags :: "string list option"

section \<open>Reading a stream file\<close>

text \<open>\<open>content.trim().split('\n').filter(line => line.trim())\<close>\<close>

definition nonBlankLines :: "string \<Rightarrow> string list" where
  "nonBlankLines content = filter (\<lambda>line. trim line \<noteq> []) (splitOn nl (trim content))"

text \<open>\<open>lines.map((line, index) => { try { return JSON.parse(line) } catch (e) { throw ... } })\<close>:
  the first line that does not parse throws, with \<open>index + 1\<close>.\<close>

fun parseLines :: "(string \<Rightarrow> string + 'r) \<Rightarrow> nat \<Rightarrow> string list \<Rightarrow> error + 'r list" where
  "parseLines p index [] = Inr []"
| "parseLines p index (line # rest) =
     (case p line of
        Inl msg \<Rightarrow> Inl (InvalidJson (index + 1) msg)
      | Inr r \<Rightarrow>
          (case parseLines p (index + 1) rest of
             Inl e \<Rightarrow> Inl e
           | Inr rs \<Rightarrow> Inr (r # rs)))"

text \<open>
  A stream file as the stores write it: every line followed by a newline. A line is clean
  when it is not empty, holds no newline and neither starts nor ends with white space, as
  the text \<open>JSON.stringify\<close> gives for an object is.
\<close>

definition jsonl :: "string list \<Rightarrow> string" where
  "jsonl ls = concat (map (\<lambda>l. l @ [nl]) ls)"

definition cleanLine :: "string \<Rightarrow> bool" where
  "cleanLine l \<longleftrightarrow> l \<noteq> [] \<and> nl \<notin> set l \<and> \<not> isWhiteSpace (hd l) \<and> \<not> isWhiteSpace (last l)"


definition untrimmedLines :: "string \<Rightarrow> string list" where
  "untrimmedLines content = filter (\<lambda>line. trim line \<noteq> []) (splitOn nl (trimStart content))"

definition unterminated :: "string \<Rightarrow> string" where
  "unterminated content = last (splitOn nl content)"

text \<open>
  A content takes a further line \<open>l\<close> when only white space follows its last newline, and,
  unless all of it is blank, the parser gives for its last non-blank line the same with its
  trailing white space as without, and for \<open>l\<close> behind the white space that follows the
  last newline the same as for \<open>l\<close> alone. The empty content and a content that ends with a
  newline after a line without trailing white space take every line. A record round-trips
  on a platform when its text is a clean line that parses back to the record.
\<close>

definition takesLine :: "'r platform \<Rightarrow> string \<Rightarrow> string \<Rightarrow> bool" where
  "takesLine pf content l \<longleftrightarrow>
     (\<forall>c\<in>set (unterminated content). isWhiteSpace c)
     \<and> (untrimmedLines content = []
        \<or> (parse pf (trimEnd (last (untrimmedLines content)))
              = parse pf (last (untrimmedLines content))
           \<and> parse pf (unterminated content @ l) = parse pf l))"

definition roundTrips :: "'r platform \<Rightarrow> 'r \<Rightarrow> bool" where
  "roundTrips pf r \<longleftrightarrow> cleanLine (stringify pf r) \<and> parse pf (stringify pf r) = Inr r"

section \<open>ledger.ts\<close>

definition isValidEntry :: "'e platform \<Rightarrow> 'e \<Rightarrow> bool" where
  "isValidEntry pf entry = validate pf entry"

definition getValidationErrors :: "'e platform \<Rightarrow> 'e \<Rightarrow> string list" where
  "getValidationErrors pf entry = validateErrors pf entry"

definition readLedger :: "'e platform \<Rightarrow> fs \<Rightarrow> string \<Rightarrow> error + 'e list" where
  "readLedger pf s rootDir =
     (let ledgerPath = getLedgerPath rootDir in
      if \<not> existsSync s ledgerPath then Inr []
      else parseLines (parse pf) 0 (nonBlankLines (readFileSync s ledgerPath)))"

definition readLastN :: "'e platform \<Rightarrow> fs \<Rightarrow> string \<Rightarrow> int \<Rightarrow> error + 'e list" where
  "readLastN pf s rootDir n =
     (case readLedger pf s rootDir of
        Inl e \<Rightarrow> Inl e
      | Inr entries \<Rightarrow> Inr (js_slice entries (- n)))"

text \<open>\<open>appendEntry\<close> returns the outcome and the file system after the call.\<close>

definition appendEntry :: "'e platform \<Rightarrow> fs \<Rightarrow> string \<Rightarrow> 'e \<Rightarrow> (error + unit) \<times> fs" where
  "appendEntry pf s rootDir entry =
     (let ledgerPath = getLedgerPath rootDir in
      if \<not> isValidEntry pf entry then (Inl (InvalidEntry (getValidationErrors pf entry)), s)
      else
        let s1 = (if rootDir \<notin> dirs s then mkdirSync s rootDir else s);
            line = stringify pf entry @ [nl]
        in (Inr (), appendFileSync s1 ledgerPath line))"

definition readByFile :: "LedgerEntry platform \<Rightarrow> fs \<Rightarrow> string \<Rightarrow> string \<Rightarrow> error + LedgerEntry list" where
  "readByFile pf s rootDir filePath =
     (case readLedger pf s rootDir of
        Inl e \<Rightarrow> Inl e
      | Inr entries \<Rightarrow>
          Inr (filter (\<lambda>e. list_ex (\<lambda>a. artifact_path a = filePath
                                        \<or> str_includes (artifact_path a) filePath) (artifacts e))
                 entries))"

section \<open>promises.ts\<close>

definition isValidPromise :: "PromiseEntry platform \<Rightarrow> PromiseEntry \<Rightarrow> bool" where
  "isValidPromise pf p = validate pf p"

definition getPromiseValidationErrors :: "PromiseEntry platform \<Rightarrow> PromiseEntry \<Rightarrow> string list" where
  "getPromiseValidationErrors pf p = validateErrors pf p"

definition readPromises :: "PromiseEntry platform \<Rightarrow> fs \<Rightarrow> string \<Rightarrow> error + PromiseEntry list" where
  "readPromises pf s rootDir =
     (let promisesPath = getPromisesPath rootDir in
      if \<not> existsSync s promisesPath then Inr []
      else parseLines (parse pf) 0 (nonBlankLines (readFileSync s promisesPath)))"

definition readLastNPromises ::
  "PromiseEntry platform \<Rightarrow> fs \<Rightarrow> string \<Rightarrow> int \<Rightarrow> error + PromiseEntry list" where
  "readLastNPromises pf s rootDir n =
     (case readPromises pf s rootDir of
        Inl e \<Rightarrow> Inl e
      | Inr promises \<Rightarrow> Inr (js_slice promises (- n)))"

definition getPromiseById ::
  "PromiseEntry platform \<Rightarrow> fs \<Rightarrow> string \<Rightarrow> string \<Rightarrow> error + PromiseEntry option" where
  "getPromiseById pf s rootDir ident =
     (case readPromises pf s rootDir of
        Inl e \<Rightarrow> Inl e
      | Inr promises \<Rightarrow> Inr (find (\<lambda>p. promise_id p = ident) promises))"

definition appendPromise ::
  "PromiseEntry platform \<Rightarrow> fs \<Rightarrow> string \<Rightarrow> PromiseEntry \<Rightarrow> (error + unit) \<times> fs" where
  "appendPromise pf s rootDir p =
     (let promisesPath = getPromisesPath rootDir in
      if \<not> isValidPromise pf p then (Inl (InvalidPromise (getPromiseValidationErrors pf p)), s)
      else
        let s1 = (if rootDir \<notin> dirs s then mkdirSync s rootDir else s);
            line = stringify pf p @ [nl]
        in (Inr (), appendFileSync s1 promisesPath line))"

text \<open>\<open>createPromise\<close>: \<open>uuid\<close> is the value of \<open>uuidv4()\<close> and \<open>now\<close> that of
  \<open>new Date().toISOString()\<close> at the call.\<close>

definition createPromise ::
  "string \<Rightarrow> string \<Rightarrow> Promiser \<Rightarrow> Promisee \<Rightarrow> PromiseBody \<Rightarrow> PromiseContext option
     \<Rightarrow> string list option \<Rightarrow> PromiseEntry" where
  "createPromise uuid now pr pe body ctx tgs =
     \<lparr>promise_id = uuid, promise_timestamp = now, promiser = pr, promisee = pe, promise = body,
      promise_context = ctx, status = Active, resolvedBy = None, resolvedAt = None,
      supersededBy = None, promise_tags = tgs\<rparr>"

text \<open>\<open>resolvePromise\<close> reads the whole file, replaces the first record with the given id and
  rewrites the whole file; \<open>Inr None\<close> is the result \<open>null\<close>. \<open>now\<close> is the clock reading
  \<open>new Date().toISOString()\<close> taken inside the call.\<close>

definition resolvePromise ::
  "PromiseEntry platform \<Rightarrow> string \<Rightarrow> fs \<Rightarrow> string \<Rightarrow> string \<Rightarrow> PromiseStatus \<Rightarrow> string option
     \<Rightarrow> (error + PromiseEntry option) \<times> fs" where
  "resolvePromise pf now s rootDir pid st resolver =
     (case readPromises pf s rootDir of
        Inl e \<Rightarrow> (Inl e, s)
      | Inr promises \<Rightarrow>
          (case findIndex (\<lambda>p. promise_id p = pid) promises of
             None \<Rightarrow> (Inr None, s)
           | Some index \<Rightarrow>
               let promises' = promises[index :=
                     (promises ! index)\<lparr>status := st, resolvedBy := resolver, resolvedAt := Some now\<rparr>];
                   promisesPath = getPromisesPath rootDir;
                   content = joinWith nl (map (stringify pf) promises') @ [nl]
               in (Inr (Some (promises' ! index)), writeFileSync s promisesPath content)))"

definition withdrawPromise ::
  "PromiseEntry platform \<Rightarrow> string \<Rightarrow> fs \<Rightarrow> string \<Rightarrow> string
     \<Rightarrow> (error + PromiseEntry option) \<times> fs" where
  "withdrawPromise pf now s rootDir pid = resolvePromise pf now s rootDir pid Withdrawn None"

section \<open>reports.ts\<close>

definition isValidReport :: "WorkReport platform \<Rightarrow> WorkReport \<Rightarrow> bool" where
  "isValidReport pf r = validate pf r"

definition getReportValidationErrors :: "WorkReport platform \<Rightarrow> WorkReport \<Rightarrow> string list" where
  "getReportValidationErrors pf r = validateErrors pf r"

definition readReports :: "WorkReport platform \<Rightarrow> fs \<Rightarrow> string \<Rightarrow> error + WorkReport list" where
  "readReports pf s rootDir =
     (let reportsPath = getReportsPath rootDir in
      if \<not> existsSync s reportsPath then Inr []
      else parseLines (parse pf) 0 (nonBlankLines (readFileSync s reportsPath)))"

definition readLastNReports ::
  "WorkReport platform \<Rightarrow> fs \<Rightarrow> string \<Rightarrow> int \<Rightarrow> error + WorkReport list" where
  "readLastNReports pf s rootDir n =
     (case readReports pf s rootDir of
        Inl e \<Rightarrow> Inl e
      | Inr reports \<Rightarrow> Inr (js_slice reports (- n)))"

definition getReportsForPromise ::
  "WorkReport platform \<Rightarrow> fs \<Rightarrow> string \<Rightarrow> string \<Rightarrow> error + WorkReport list" where
  "getReportsForPromise pf s rootDir pid =
     (case readReports pf s rootDir of
        Inl e \<Rightarrow> Inl e
      | Inr reports \<Rightarrow> Inr (filter (\<lambda>r. promiseId r = pid) reports))"

definition appendReport ::
  "WorkReport platform \<Rightarrow> fs \<Rightarrow> string \<Rightarrow> WorkReport \<Rightarrow> (error + unit) \<times> fs" where
  "appendReport pf s rootDir r =
     (let reportsPath = getReportsPath rootDir in
      if \<not> isValidReport pf r then (Inl (InvalidReport (getReportValidationErrors pf r)), s)
      else
        let s1 = (if rootDir \<notin> dirs s then mkdirSync s rootDir else s);
            line = stringify pf r @ [nl]
        in (Inr (), appendFileSync s1 reportsPath line))"

text \<open>\<open>createVerdictReport\<close>; a \<open>workCompleted\<close> of \<open>None\<close> is the omitted argument, which
  takes the default text.\<close>

definition createVerdictReport ::
  "string \<Rightarrow> string \<Rightarrow> Reporter \<Rightarrow> string \<Rightarrow> Verdict \<Rightarrow> string option \<Rightarrow> string list option
     \<Rightarrow> string list option \<Rightarrow> WorkReport" where
  "createVerdictReport uuid now rep pid v workDone related tgs =
     \<lparr>report_id = uuid, report_timestamp = now, reporter = rep, promiseId = pid,
      report = \<lparr>workCompleted = (case workDone of None \<Rightarrow> ''Reviewed promise fulfillment''
                                                 | Some w \<Rightarrow> w),
                remaining = None, blockers = None,
                confidenceInCompletion =
                  (if verdict_status v = VerdictFulfilled then 1.0
                   else if verdict_status v = VerdictPartial then 0.5 else 0.0)\<rparr>,
      verdict = Some v, report_relatedEntries = related, report_tags = tgs\<rparr>"

text \<open>
  \<open>addVerdict\<close>: \<open>uuid\<close> and \<open>tReport\<close> are the id and the time stamp the report gets,
  \<open>tResolve\<close> the later clock reading inside \<open>resolvePromise\<close>; a \<open>reporterAgent\<close> of \<open>None\<close>
  is the omitted argument (default \<open>human\<close>). \<open>Inr None\<close> is the result \<open>null\<close>.
\<close>

definition addVerdict ::
  "PromiseEntry platform \<Rightarrow> WorkReport platform \<Rightarrow> string \<Rightarrow> string \<Rightarrow> string \<Rightarrow> fs \<Rightarrow> string
     \<Rightarrow> string \<Rightarrow> VerdictStatus \<Rightarrow> string \<Rightarrow> string option
     \<Rightarrow> (error + (WorkReport \<times> PromiseEntry) option) \<times> fs" where
  "addVerdict pfP pfR uuid tReport tResolve s rootDir pid verdictStatus reasoningText reporterAgent =
     (case getPromiseById pfP s rootDir pid of
        Inl e \<Rightarrow> (Inl e, s)
      | Inr None \<Rightarrow> (Inr None, s)
      | Inr (Some p) \<Rightarrow>
          let r = createVerdictReport uuid tReport
                    \<lparr>reporter_agent = (case reporterAgent of None \<Rightarrow> ''human'' | Some a \<Rightarrow> a),
                     role = Human, reporter_session = None\<rparr>
                    pid
                    \<lparr>verdict_status = verdictStatus, verdict_reasoning = reasoningText\<rparr>
                    None None None
          in (case appendReport pfR s rootDir r of
                (Inl e, s1) \<Rightarrow> (Inl e, s1)
              | (Inr u, s1) \<Rightarrow>
                  let promiseStatus =
                        (if verdictStatus = VerdictFulfilled then Fulfilled
                         else if verdictStatus = VerdictBroken then Broken else Active)
                  in if promiseStatus \<noteq> Active then
                       (case resolvePromise pfP tResolve s1 rootDir pid promiseStatus
                               (Some (report_id r)) of
                          (Inl e, s2) \<Rightarrow> (Inl e, s2)
                        | (Inr None, s2) \<Rightarrow> (Inr (Some (r, p)), s2)
                        | (Inr (Some updatedPromise), s2) \<Rightarrow> (Inr (Some (r, updatedPromise)), s2))
                     else (Inr (Some (r, p)), s1)))"

section \<open>The command line: \<open>promise resolve\<close>\<close>

text \<open>
  The commands find a promise by its full id or by a prefix of it, each with the expression
  \<open>promises.find(p => p.id === promiseId || p.id.startsWith(promiseId))\<close>.
  \<open>promiseResolveCommand\<close> is the action of \<open>promise resolve <promise-id> --status <status>\<close>
  once the root directory is found; its outcomes are the messages it prints (the first two
  exit with code 1), and an exception of \<open>readPromises\<close> ends the command.
\<close>

definition findPromiseByRef :: "PromiseEntry list \<Rightarrow> string \<Rightarrow> PromiseEntry option" where
  "findPromiseByRef promises pid =
     find (\<lambda>p. promise_id p = pid \<or> startsWith (promise_id p) pid) promises"

datatype resolve_outcome =
    InvalidStatus
  | PromiseNotFound string
  | PromiseResolved PromiseEntry
  | FailedToResolve

text \<open>The option \<open>--status\<close> as the command accepts it: \<open>fulfilled\<close>, \<open>broken\<close> or
  \<open>withdrawn\<close>, anything else is refused.\<close>

definition validStatuses :: "(string \<times> PromiseStatus) list" where
  "validStatuses = [(''fulfilled'', Fulfilled), (''broken'', Broken), (''withdrawn'', Withdrawn)]"

definition promiseResolveCommand ::
  "PromiseEntry platform \<Rightarrow> string \<Rightarrow> fs \<Rightarrow> string \<Rightarrow> string \<Rightarrow> string
     \<Rightarrow> (error + resolve_outcome) \<times> fs" where
  "promiseResolveCommand pf now s rootDir pid statusOption =
     (case map_of validStatuses statusOption of
        None \<Rightarrow> (Inr InvalidStatus, s)
      | Some st \<Rightarrow>
          (case readPromises pf s rootDir of
             Inl e \<Rightarrow> (Inl e, s)
           | Inr promises \<Rightarrow>
               (case findPromiseByRef promises pid of
                  None \<Rightarrow> (Inr (PromiseNotFound pid), s)
                | Some p \<Rightarrow>
                    (case resolvePromise pf now s rootDir (promise_id p) st None of
                       (Inl e, s') \<Rightarrow> (Inl e, s')
                     | (Inr None, s') \<Rightarrow> (Inr FailedToResolve, s')
                     | (Inr (Some updated), s') \<Rightarrow> (Inr (PromiseResolved updated), s')))))"

section \<open>The conflict check\<close>

text \<open>The result of the check: \<open>{conflict: true, priorEntry, priorIntent}\<close> or
  \<open>{conflict: false}\<close>.\<close>

datatype conflict_result =
    Conflict LedgerEntry string
  | NoConflict

text \<open>
  Modelled from the spec: the conflict check of the aggregation layer (section 4.5 of the
  specification), which no source file implements. Given a target file path and a proposed
  intent, it scans the five most recent entries whose artifact list includes that path, by
  the substring match of \<open>readByFile\<close>; if one of them has an intent that is not the
  proposed one it reports the conflict with that entry and its intent, and otherwise no
  conflict. The entries are scanned in the order of the log.
\<close>

definition conflictCheck :: "string \<Rightarrow> string \<Rightarrow> LedgerEntry list \<Rightarrow> conflict_result" where
  "conflictCheck f i ledger =
     (let matching = filter (\<lambda>e. list_ex (\<lambda>a. str_includes (artifact_path a) f) (artifacts e))
                       ledger;
          scanned = drop (length matching - 5) matching
      in case find (\<lambda>e. intent (reasoning e) \<noteq> i) scanned of
           None \<Rightarrow> NoConflict
         | Some e \<Rightarrow> Conflict e (intent (reasoning e)))"

section \<open>A sample store\<close>

text \<open>
  Concrete records, the JSON texts \<open>JSON.stringify\<close> gives for them, and a platform that knows
  exactly these texts: \<open>parse\<close> maps a listed text to its record and refuses every other text,
  \<open>stringify\<close> maps a listed record to its text. The sample files hold listed texts and
  texts that are not JSON, on which the sample platform agrees with \<open>JSON.parse\<close>. The
  theorems below hold for every platform; the sample platform serves to run the stores on
  concrete files.
\<close>

definition tablePlatform :: "(string \<times> 'r) list \<Rightarrow> ('r \<Rightarrow> bool) \<Rightarrow> 'r platform" where
  "tablePlatform table ok =
     \<lparr>parse = (\<lambda>line. case map_of table line of
                          None \<Rightarrow> Inl ''Unexpected token''
                        | Some r \<Rightarrow> Inr r),
      stringify = (\<lambda>r. case find (\<lambda>row. snd row = r) table of
                          None \<Rightarrow> ''null''
                        | Some row \<Rightarrow> fst row),
      validate = ok,
      validateErrors = (\<lambda>r. if ok r then [] else [''must match the schema''])\<rparr>"

text \<open>Modelled from the spec: the entry schema \<open>schema/entry.schema.json\<close>, which is not among
  the sources. The spec gives a summary of at most 200 characters and a confidence in [0, 1].\<close>

definition entrySchema :: "LedgerEntry \<Rightarrow> bool" where
  "entrySchema e \<longleftrightarrow>
     length (action_summary (action e)) \<le> 200
     \<and> (case confidence (reasoning e) of None \<Rightarrow> True | Some c \<Rightarrow> 0 \<le> c \<and> c \<le> 1)"

text \<open>Modelled from the spec: the report schema \<open>schema/report.schema.json\<close>, which is not among
  the sources. The spec gives a \<open>confidenceInCompletion\<close> in [0, 1].\<close>

definition reportSchema :: "WorkReport \<Rightarrow> bool" where
  "reportSchema r \<longleftrightarrow>
     0 \<le> confidenceInCompletion (report r) \<and> confidenceInCompletion (report r) \<le> 1"

definition entry1 :: LedgerEntry where
  "entry1 =
     \<lparr>entry_id = ''e1'', entry_timestamp = ''2026-01-01T10:00:00.000Z'',
      agent = \<lparr>agent_name = ''claude-code'', agent_model = None, agent_version = None\<rparr>,
      session = \<lparr>session_id = ''s1'', entryIndex = 0, parentEntryId = None\<rparr>,
      entryType = None,
      action = \<lparr>action_type = Modify, action_summary = ''Feature flag'',
                action_description = None\<rparr>,
      reasoning = \<lparr>intent = ''add feature'', considerations = None, assumptions = None,
                   uncertainties = None, confidence = None\<rparr>,
      tools = [],
      artifacts = [\<lparr>artifact_path = ''a.ts'', artifact_action = Modified, linesChanged = None,
                    artifact_summary = None\<rparr>],
      userPrompt = None, entry_tags = None, entry_relatedEntries = None\<rparr>"

definition line_entry1 :: string where
  \<open>line_entry1 = ''{"id":"e1","timestamp":"2026-01-01T10:00:00.000Z","agent":{"name":"claude-code"},"session":{"id":"s1","entryIndex":0},"action":{"type":"modify","summary":"Feature flag"},"reasoning":{"intent":"add feature"},"tools":[],"artifacts":[{"path":"a.ts","action":"modified"}]}''\<close>

definition entry2 :: LedgerEntry where
  "entry2 = entry1\<lparr>entry_id := ''e2'', reasoning := (reasoning entry1)\<lparr>intent := ''remove feature''\<rparr>\<rparr>"

definition line_entry2 :: string where
  \<open>line_entry2 = ''{"id":"e2","timestamp":"2026-01-01T10:00:00.000Z","agent":{"name":"claude-code"},"session":{"id":"s1","entryIndex":0},"action":{"type":"modify","summary":"Feature flag"},"reasoning":{"intent":"remove feature"},"tools":[],"artifacts":[{"path":"a.ts","action":"modified"}]}''\<close>

text \<open>An entry that touches \<open>src/a.ts\<close>, and one whose confidence is out of range.\<close>

definition entry3 :: LedgerEntry where
  "entry3 = entry1\<lparr>entry_id := ''e3'',
     artifacts := [\<lparr>artifact_path = ''src/a.ts'', artifact_action = Modified, linesChanged = None,
                    artifact_summary = None\<rparr>]\<rparr>"

definition entryBad :: LedgerEntry where
  "entryBad = entry1\<lparr>entry_id := ''e4'', reasoning := (reasoning entry1)\<lparr>confidence := Some 2\<rparr>\<rparr>"

definition line_malformed :: string where
  \<open>line_malformed = ''{"id":"e9",''\<close>

definition entryPlatform :: "LedgerEntry platform" where
  "entryPlatform = tablePlatform [(line_entry1, entry1), (line_entry2, entry2)] entrySchema"

definition promiseA :: PromiseEntry where
  "promiseA =
     \<lparr>promise_id = ''abc1'', promise_timestamp = ''2026-01-01T10:00:00.000Z'',
      promiser = \<lparr>promiser_agent = ''claude-code'', promiser_session = None\<rparr>,
      promisee = \<lparr>promisee_agent = ''*'', promisee_scope = None\<rparr>,
      promise = \<lparr>promise_type = WillDo, promise_summary = ''Add OAuth'',
                 promise_description = None, conditions = None\<rparr>,
      promise_context = None, status = Active, resolvedBy = None, resolvedAt = None,
      supersededBy = None, promise_tags = None\<rparr>"

definition line_promiseA :: string where
  \<open>line_promiseA = ''{"id":"abc1","timestamp":"2026-01-01T10:00:00.000Z","promiser":{"agent":"claude-code"},"promisee":{"agent":"*"},"promise":{"type":"will-do","summary":"Add OAuth"},"status":"active"}''\<close>

definition promiseB :: PromiseEntry where
  "promiseB = promiseA\<lparr>promise_id := ''abc2''\<rparr>"

definition line_promiseB :: string where
  \<open>line_promiseB = ''{"id":"abc2","timestamp":"2026-01-01T10:00:00.000Z","promiser":{"agent":"claude-code"},"promisee":{"agent":"*"},"promise":{"type":"will-do","summary":"Add OAuth"},"status":"active"}''\<close>

text \<open>\<open>promiseA\<close> after the verdict report \<open>r1\<close> fulfilled it, and after a later \<open>resolve\<close> to
  \<open>broken\<close>.\<close>

definition promiseA_fulfilled :: PromiseEntry where
  "promiseA_fulfilled =
     promiseA\<lparr>status := Fulfilled, resolvedBy := Some ''r1'',
              resolvedAt := Some ''2026-01-02T09:00:00.001Z''\<rparr>"

definition line_promiseA_fulfilled :: string where
  \<open>line_promiseA_fulfilled = ''{"id":"abc1","timestamp":"2026-01-01T10:00:00.000Z","promiser":{"agent":"claude-code"},"promisee":{"agent":"*"},"promise":{"type":"will-do","summary":"Add OAuth"},"status":"fulfilled","resolvedBy":"r1","resolvedAt":"2026-01-02T09:00:00.001Z"}''\<close>

definition promiseA_broken :: PromiseEntry where
  "promiseA_broken =
     promiseA\<lparr>status := Broken, resolvedBy := None,
              resolvedAt := Some ''2026-01-03T09:00:00.000Z''\<rparr>"

definition line_promiseA_broken :: string where
  \<open>line_promiseA_broken = ''{"id":"abc1","timestamp":"2026-01-01T10:00:00.000Z","promiser":{"agent":"claude-code"},"promisee":{"agent":"*"},"promise":{"type":"will-do","summary":"Add OAuth"},"status":"broken","resolvedAt":"2026-01-03T09:00:00.000Z"}''\<close>

definition promisePlatform :: "PromiseEntry platform" where
  "promisePlatform =
     tablePlatform
       [(line_promiseA, promiseA), (line_promiseB, promiseB),
        (line_promiseA_fulfilled, promiseA_fulfilled), (line_promiseA_broken, promiseA_broken)]
       (\<lambda>p. True)"

definition report1 :: WorkReport where
  "report1 =
     \<lparr>report_id = ''r1'', report_timestamp = ''2026-01-02T09:00:00.000Z'',
      reporter = \<lparr>reporter_agent = ''human'', role = Human, reporter_session = None\<rparr>,
      promiseId = ''abc1'',
      report = \<lparr>workCompleted = ''Reviewed promise fulfillment'', remaining = None,
                blockers = None, confidenceInCompletion = 1\<rparr>,
      verdict = Some \<lparr>verdict_status = VerdictFulfilled, verdict_reasoning = ''done''\<rparr>,
      report_relatedEntries = None, report_tags = None\<rparr>"

definition line_report1 :: string where
  \<open>line_report1 = ''{"id":"r1","timestamp":"2026-01-02T09:00:00.000Z","reporter":{"agent":"human","role":"human"},"promiseId":"abc1","report":{"workCompleted":"Reviewed promise fulfillment","confidenceInCompletion":1},"verdict":{"status":"fulfilled","reasoning":"done"}}''\<close>

definition reportPlatform :: "WorkReport platform" where
  "reportPlatform = tablePlatform [(line_report1, report1)] reportSchema"

text \<open>File systems of the root \<open>/repo\<close>: freshly initialised (three empty files), a ledger
  with one entry, a promise file with two promises, and one with \<open>promiseA\<close> fulfilled.\<close>

definition storeOf :: "string \<Rightarrow> string \<Rightarrow> string \<Rightarrow> fs" where
  "storeOf ledger promises reports =
     \<lparr>dirs = {''/repo''},
      files = [(''/repo'', LEDGER_FILE) \<mapsto> ledger, (''/repo'', PROMISES_FILE) \<mapsto> promises,
               (''/repo'', REPORTS_FILE) \<mapsto> reports]\<rparr>"

definition store_init :: fs where
  "store_init = storeOf [] [] []"

definition store_one_entry :: fs where
  "store_one_entry = storeOf (jsonl [line_entry1]) [] []"

definition store_two_promises :: fs where
  "store_two_promises = storeOf [] (jsonl [line_promiseA, line_promiseB]) []"

definition store_fulfilled :: fs where
  "store_fulfilled =
     storeOf [] (jsonl [line_promiseA_fulfilled, line_promiseB]) (jsonl [line_report1])"

text \<open>Ledgers with a malformed line: alone, and after an empty first line and a good
  line; and a ledger whose second line is a single space.\<close>

definition store_malformed :: fs where
  "store_malformed = storeOf (jsonl [line_malformed]) [] []"




definition store_blank_end :: fs where
  "store_blank_end = storeOf (line_entry1 @ [nl, nl]) [] []"

definition store_unterminated :: fs where
  "store_unterminated = storeOf line_entry1 [] []"

definition store_form_feed :: fs where
  "store_form_feed = storeOf (line_entry1 @ [CHR 0x0C, nl]) [] []"

text \<open>A platform whose report validator refuses every report.\<close>

definition refusingReportPlatform :: "WorkReport platform" where
  "refusingReportPlatform = tablePlatform [(line_report1, report1)] (\<lambda>r. False)"

text \<open>Scenario B: on the store with the two promises, a human's verdict \<open>fulfilled\<close> on
  \<open>abc1\<close>; the report gets the id \<open>r1\<close>.\<close>

definition scenarioB :: "(error + (WorkReport \<times> PromiseEntry) option) \<times> fs" where
  "scenarioB =
     addVerdict promisePlatform reportPlatform ''r1'' ''2026-01-02T09:00:00.000Z''
       ''2026-01-02T09:00:00.001Z'' store_two_promises ''/repo'' ''abc1'' VerdictFulfilled
       ''done'' None"

section \<open>Lemmas: strings, lines and stream files\<close>

lemma js_slice_zero: "js_slice xs 0 = xs"
  by (simp add: js_slice_def)

lemma js_slice_last:
  "0 < n \<Longrightarrow> js_slice xs (- int n) = drop (length xs - n) xs"
  by (auto simp add: js_slice_def Let_def max_def nat_diff_distrib')

lemma splitOn_nonempty: "splitOn sep s \<noteq> []"
  by (induction s) (auto split: list.splits)

lemma splitOn_no_sep: "sep \<notin> set l \<Longrightarrow> splitOn sep l = [l]"
  by (induction l) auto

lemma splitOn_append_sep: "splitOn sep (a @ sep # b) = splitOn sep a @ splitOn sep b"
proof (induction a)
  case Nil
  then show ?case by simp
next
  case (Cons c a)
  then show ?case
    using splitOn_nonempty[of sep a] by (cases "splitOn sep a") (auto)
qed

lemma jsonl_Nil: "jsonl [] = []"
  by (simp add: jsonl_def)

lemma jsonl_Cons: "jsonl (l # ls) = l @ nl # jsonl ls"
  by (simp add: jsonl_def)

lemma jsonl_append: "jsonl (xs @ ys) = jsonl xs @ jsonl ys"
  by (simp add: jsonl_def)

lemma jsonl_snoc: "jsonl ls @ l @ [nl] = jsonl (ls @ [l])"
  by (simp add: jsonl_append jsonl_Cons jsonl_Nil)

lemma joinWith_jsonl: "ls \<noteq> [] \<Longrightarrow> joinWith nl ls @ [nl] = jsonl ls"
  by (induction nl ls rule: joinWith.induct) (simp_all add: jsonl_Cons jsonl_Nil)



lemma splitOn_joinWith:
  "ls \<noteq> [] \<Longrightarrow> \<forall>l\<in>set ls. nl \<notin> set l \<Longrightarrow> splitOn nl (joinWith nl ls) = ls"
proof (induction nl ls rule: joinWith.induct)
  case (3 p q qs)
  have "splitOn nl (joinWith nl (p # q # qs)) = splitOn nl (p @ nl # joinWith nl (q # qs))"
    by simp
  also have "\<dots> = splitOn nl p @ splitOn nl (joinWith nl (q # qs))"
    by (rule splitOn_append_sep)
  finally show ?case using 3 by (simp add: splitOn_no_sep)
qed (simp_all add: splitOn_no_sep)

lemma trim_clean_append:
  assumes "a \<noteq> []" "\<not> isWhiteSpace (hd a)" "\<not> isWhiteSpace (last a)"
  shows "trim (a @ b) = a @ rev (dropWhile isWhiteSpace (rev b))"
proof -
  have l: "dropWhile isWhiteSpace (a @ b) = a @ b"
    using assms by (cases a) simp_all
  have r: "dropWhile isWhiteSpace (rev a) = rev a"
    using assms by (cases "rev a") (simp_all add: last_rev[symmetric] hd_rev)
  show ?thesis
  proof (cases "\<forall>c\<in>set (rev b). isWhiteSpace c")
    case True
    then have "dropWhile isWhiteSpace (rev b @ rev a) = dropWhile isWhiteSpace (rev a)"
      by (intro dropWhile_append2) simp
    moreover have "dropWhile isWhiteSpace (rev b) = []"
      using True by simp
    ultimately show ?thesis
      by (simp add: trim_def l r)
  next
    case False
    then obtain c where "c \<in> set (rev b)" "\<not> isWhiteSpace c" by blast
    then have "dropWhile isWhiteSpace (rev b @ rev a) = dropWhile isWhiteSpace (rev b) @ rev a"
      by (rule dropWhile_append1)
    then show ?thesis
      by (simp add: trim_def l)
  qed
qed

lemma trim_clean: "cleanLine l \<Longrightarrow> trim l = l"
  using trim_clean_append[of l "[]"] by (simp add: cleanLine_def)

lemma joinWith_hd: "ls \<noteq> [] \<Longrightarrow> hd ls \<noteq> [] \<Longrightarrow> hd (joinWith sep ls) = hd (hd ls)"
  by (induction sep ls rule: joinWith.induct) simp_all

lemma joinWith_nonempty_last: "ls \<noteq> [] \<Longrightarrow> last ls \<noteq> [] \<Longrightarrow> joinWith sep ls \<noteq> []"
  by (induction sep ls rule: joinWith.induct) simp_all

lemma joinWith_last: "ls \<noteq> [] \<Longrightarrow> last ls \<noteq> [] \<Longrightarrow> last (joinWith sep ls) = last (last ls)"
proof (induction sep ls rule: joinWith.induct)
  case (3 sep p q qs)
  then have "joinWith sep (q # qs) \<noteq> []"
    by (intro joinWith_nonempty_last) simp_all
  with 3 show ?case by simp
qed simp_all

lemma joinWith_nonempty: "ls \<noteq> [] \<Longrightarrow> hd ls \<noteq> [] \<Longrightarrow> joinWith sep ls \<noteq> []"
  by (induction sep ls rule: joinWith.induct) simp_all

lemma isWhiteSpace_nl: "isWhiteSpace nl"
  by (simp add: isWhiteSpace_def nl_def)

lemma nonBlankLines_Nil: "nonBlankLines [] = []"
  by (simp add: nonBlankLines_def trim_def)


lemma nonBlankLines_jsonl_append:
  assumes ne: "ls \<noteq> []" and clean: "\<forall>l\<in>set ls. cleanLine l"
  shows "\<exists>others. nonBlankLines (jsonl ls @ rest) = ls @ others
           \<and> ((\<forall>c\<in>set rest. isWhiteSpace c) \<longrightarrow> others = [])"
proof -
  let ?J = "joinWith nl ls"
  have hdl: "hd ls \<in> set ls" and lastl: "last ls \<in> set ls" using ne by simp_all
  have J1: "?J \<noteq> []" using ne hdl clean by (simp add: joinWith_nonempty cleanLine_def)
  have J2: "\<not> isWhiteSpace (hd ?J)"
    using ne hdl clean by (simp add: joinWith_hd cleanLine_def)
  have J3: "\<not> isWhiteSpace (last ?J)"
    using ne lastl clean by (simp add: joinWith_last cleanLine_def)
  have nonl: "\<forall>l\<in>set ls. nl \<notin> set l" using clean by (simp add: cleanLine_def)
  have keep: "filter (\<lambda>line. trim line \<noteq> []) ls = ls"
    using clean by (auto simp: trim_clean cleanLine_def filter_id_conv)
  have c: "jsonl ls @ rest = ?J @ nl # rest"
    using joinWith_jsonl[OF ne, symmetric] by simp
  have t: "trim (jsonl ls @ rest) = ?J @ rev (dropWhile isWhiteSpace (rev (nl # rest)))"
    unfolding c by (rule trim_clean_append[OF J1 J2 J3])
  show ?thesis
  proof (cases "\<forall>c\<in>set rest. isWhiteSpace c")
    case True
    then have "dropWhile isWhiteSpace (rev (nl # rest)) = []"
      by (simp add: isWhiteSpace_nl)
    then have "trim (jsonl ls @ rest) = ?J" using t by simp
    then have "nonBlankLines (jsonl ls @ rest) = ls"
      by (simp add: nonBlankLines_def splitOn_joinWith[OF ne nonl] keep)
    then show ?thesis by simp
  next
    case False
    then obtain x where "x \<in> set (rev rest)" "\<not> isWhiteSpace x" by auto
    then have "dropWhile isWhiteSpace (rev rest @ [nl]) = dropWhile isWhiteSpace (rev rest) @ [nl]"
      by (rule dropWhile_append1)
    then have "trim (jsonl ls @ rest) = ?J @ nl # rev (dropWhile isWhiteSpace (rev rest))"
      using t by simp
    then have "nonBlankLines (jsonl ls @ rest)
        = ls @ filter (\<lambda>line. trim line \<noteq> []) (splitOn nl (rev (dropWhile isWhiteSpace (rev rest))))"
      by (simp add: nonBlankLines_def splitOn_append_sep splitOn_joinWith[OF ne nonl] keep)
    then show ?thesis using False by blast
  qed
qed

lemma nonBlankLines_jsonl:
  assumes "\<forall>l\<in>set ls. cleanLine l"
  shows "nonBlankLines (jsonl ls) = ls"
proof (cases "ls = []")
  case True
  then show ?thesis by (simp add: nonBlankLines_def jsonl_Nil trim_def)
next
  case False
  from nonBlankLines_jsonl_append[OF False assms, of "[]"] show ?thesis by auto
qed

section \<open>Lemmas: parsing the lines, finding a record\<close>

lemma parseLines_append:
  "parseLines p i (xs @ ys) =
     (case parseLines p i xs of
        Inl e \<Rightarrow> Inl e
      | Inr rs \<Rightarrow> (case parseLines p (i + length xs) ys of
                     Inl e \<Rightarrow> Inl e
                   | Inr rs' \<Rightarrow> Inr (rs @ rs')))"
  by (induction xs arbitrary: i) (auto split: sum.splits)

lemma parseLines_stringify:
  "\<forall>r\<in>set rs. p (f r) = Inr r \<Longrightarrow> parseLines p i (map f rs) = Inr rs"
  by (induction rs arbitrary: i) auto

lemma parseLines_Inr_length:
  "parseLines p i ls = Inr rs \<Longrightarrow> length rs = length ls"
  by (induction ls arbitrary: i rs) (auto split: sum.splits)

lemma parseLines_Inr_nth:
  "parseLines p i ls = Inr rs \<Longrightarrow> j < length ls \<Longrightarrow> p (ls ! j) = Inr (rs ! j)"
proof (induction ls arbitrary: i rs j)
  case Nil
  then show ?case by simp
next
  case (Cons l ls)
  then show ?case
    by (cases j) (auto split: sum.splits)
qed


lemma findIndex_Some:
  "findIndex P xs = Some i \<Longrightarrow> i < length xs \<and> P (xs ! i) \<and> (\<forall>j<i. \<not> P (xs ! j))"
proof (induction xs arbitrary: i)
  case Nil
  then show ?case by simp
next
  case (Cons x xs)
  then show ?case
    by (auto split: if_splits simp: nth_Cons split: nat.splits)
qed

lemma findIndex_find:
  "find P xs = Some x \<Longrightarrow> \<exists>i. findIndex P xs = Some i \<and> xs ! i = x"
  by (induction xs) (auto split: if_splits)

lemma findIndex_None: "findIndex P xs = None \<longleftrightarrow> find P xs = None"
  by (induction xs) auto

lemma find_update_first:
  "findIndex P xs = Some i \<Longrightarrow> P y \<Longrightarrow> find P (xs[i := y]) = Some y"
  by (induction xs arbitrary: i) (auto split: if_splits)

lemma find_first_match_index:
  assumes "find P xs = Some x" and "Q x" and "\<And>y. Q y \<Longrightarrow> P y"
  shows "find Q xs = Some x"
  using assms by (induction xs) (auto split: if_splits)

lemma find_filter_hd:
  "filter P xs = x # rest \<Longrightarrow> find P xs = Some x"
  by (induction xs) (auto split: if_splits)

section \<open>Lemmas: the lines the read parses\<close>

lemma trim_trimEnd_trimStart: "trim s = trimEnd (trimStart s)"
  by (simp add: trim_def trimEnd_def trimStart_def)

lemma blank_iff: "trim l = [] \<longleftrightarrow> (\<forall>c\<in>set l. isWhiteSpace c)"
proof
  assume "trim l = []"
  then have a: "\<forall>c\<in>set (dropWhile isWhiteSpace l). isWhiteSpace c"
    by (simp add: trim_def)
  show "\<forall>c\<in>set l. isWhiteSpace c"
  proof (cases "dropWhile isWhiteSpace l = []")
    case True
    then show ?thesis by simp
  next
    case False
    then have "\<not> isWhiteSpace (hd (dropWhile isWhiteSpace l))" by (rule hd_dropWhile)
    moreover have "hd (dropWhile isWhiteSpace l) \<in> set (dropWhile isWhiteSpace l)"
      using False by simp
    ultimately show ?thesis using a by blast
  qed
next
  assume "\<forall>c\<in>set l. isWhiteSpace c"
  then show "trim l = []"
    using set_dropWhileD[of _ isWhiteSpace l] by (fastforce simp add: trim_def)
qed

lemma trimEnd_append_drop:
  assumes "\<forall>c\<in>set b. isWhiteSpace c"
  shows "trimEnd (a @ b) = trimEnd a"
proof -
  have "dropWhile isWhiteSpace (rev b @ rev a) = dropWhile isWhiteSpace (rev a)"
    using assms by (intro dropWhile_append2) simp
  then show ?thesis by (simp add: trimEnd_def)
qed

lemma trimEnd_append_keep:
  assumes "\<not> (\<forall>c\<in>set b. isWhiteSpace c)"
  shows "trimEnd (a @ b) = a @ trimEnd b"
proof -
  from assms obtain c where "c \<in> set (rev b)" "\<not> isWhiteSpace c" by auto
  then have "dropWhile isWhiteSpace (rev b @ rev a) = dropWhile isWhiteSpace (rev b) @ rev a"
    by (rule dropWhile_append1)
  then show ?thesis by (simp add: trimEnd_def)
qed

lemma trimEnd_blank: "\<forall>c\<in>set b. isWhiteSpace c \<Longrightarrow> trimEnd b = []"
  by (simp add: trimEnd_def)

lemma set_trimEnd: "set (trimEnd l) \<subseteq> set l"
  using set_dropWhileD[of _ isWhiteSpace "rev l"] by (auto simp add: trimEnd_def)


lemma trimEnd_id: "l \<noteq> [] \<Longrightarrow> \<not> isWhiteSpace (last l) \<Longrightarrow> trimEnd l = l"
  by (cases "rev l") (simp_all add: trimEnd_def last_rev[symmetric] hd_rev)

lemma trim_trimEnd: "trim (trimEnd l) = [] \<longleftrightarrow> trim l = []"
proof -
  have "(\<forall>c\<in>set (trimEnd l). isWhiteSpace c) \<longleftrightarrow> (\<forall>c\<in>set l. isWhiteSpace c)"
  proof
    assume a: "\<forall>c\<in>set (trimEnd l). isWhiteSpace c"
    have "trimEnd l = []"
    proof (rule ccontr)
      assume n: "trimEnd l \<noteq> []"
      then have "dropWhile isWhiteSpace (rev l) \<noteq> []" by (simp add: trimEnd_def)
      then have "\<not> isWhiteSpace (hd (dropWhile isWhiteSpace (rev l)))" by (rule hd_dropWhile)
      moreover have "hd (dropWhile isWhiteSpace (rev l)) \<in> set (trimEnd l)"
        using n by (simp add: trimEnd_def)
      ultimately show False using a by blast
    qed
    then show "\<forall>c\<in>set l. isWhiteSpace c"
      by (simp add: trimEnd_def)
  next
    assume "\<forall>c\<in>set l. isWhiteSpace c"
    then show "\<forall>c\<in>set (trimEnd l). isWhiteSpace c" using set_trimEnd by blast
  qed
  then show ?thesis by (simp add: blank_iff)
qed

lemma splitOn_cases:
  assumes "splitOn sep d = l # ls"
  shows "sep \<notin> set l \<and> ((ls = [] \<and> d = l) \<or> (\<exists>d'. d = l @ sep # d' \<and> splitOn sep d' = ls))"
  using assms
proof (induction d arbitrary: l ls)
  case Nil
  then show ?case by simp
next
  case (Cons c d)
  show ?case
  proof (cases "c = sep")
    case True
    with Cons.prems show ?thesis by auto
  next
    case False
    from splitOn_nonempty[of sep d] obtain p ps where sp: "splitOn sep d = p # ps"
      by (cases "splitOn sep d") auto
    with Cons.prems False have l: "l = c # p" and ls: "ls = ps" by simp_all
    from Cons.IH[OF sp] False show ?thesis
      unfolding l ls by auto
  qed
qed

lemma set_splitOn_all: "\<forall>x\<in>set (splitOn sep d). set x \<subseteq> set d"
proof (induction d)
  case Nil
  then show ?case by simp
next
  case (Cons c d)
  obtain p ps where sp: "splitOn sep d = p # ps"
    using splitOn_nonempty[of sep d] by (cases "splitOn sep d") auto
  from Cons sp show ?case by auto
qed

lemma set_splitOn: "x \<in> set (splitOn sep d) \<Longrightarrow> set x \<subseteq> set d"
  using set_splitOn_all by blast

lemma nonblank_in_splitOn:
  assumes "\<not> (\<forall>c\<in>set d. isWhiteSpace c)"
  shows "filter (\<lambda>line. trim line \<noteq> []) (splitOn nl d) \<noteq> []"
proof -
  from assms obtain c where c: "c \<in> set d" "\<not> isWhiteSpace c" by blast
  have "\<exists>x\<in>set (splitOn sep d). c \<in> set x" if "c \<in> set d" "c \<noteq> sep" for sep d
    using that
  proof (induction d)
    case Nil
    then show ?case by simp
  next
    case (Cons a d)
    obtain p ps where sp: "splitOn sep d = p # ps"
      using splitOn_nonempty[of sep d] by (cases "splitOn sep d") auto
    from Cons sp show ?case by (cases "a = sep") auto
  qed
  moreover have "c \<noteq> nl" using c(2) isWhiteSpace_nl by auto
  ultimately obtain x where "x \<in> set (splitOn nl d)" "c \<in> set x" using c(1) by blast
  then have "x \<in> set (filter (\<lambda>line. trim line \<noteq> []) (splitOn nl d))"
    using c(2) by (auto simp add: blank_iff)
  then show ?thesis by (auto simp add: filter_empty_conv)
qed

lemma blank_lines_filtered:
  assumes "\<forall>c\<in>set d. isWhiteSpace c"
  shows "filter (\<lambda>line. trim line \<noteq> []) (splitOn nl d) = []"
  using assms set_splitOn[of _ nl d] by (auto simp add: filter_empty_conv blank_iff)

text \<open>Trimming the end of a content trims its last non-blank line and drops what follows.\<close>

lemma nonBlank_trimEnd:
  "filter (\<lambda>line. trim line \<noteq> []) (splitOn nl (trimEnd d)) =
     (let U = filter (\<lambda>line. trim line \<noteq> []) (splitOn nl d)
      in if U = [] then [] else butlast U @ [trimEnd (last U)])"
proof (induction "splitOn nl d" arbitrary: d)
  case Nil
  then show ?case using splitOn_nonempty[of nl d] by simp
next
  case (Cons l ls)
  from splitOn_cases[OF Cons.hyps(2)[symmetric]]
  have nol: "nl \<notin> set l"
    and cs: "(ls = [] \<and> d = l) \<or> (\<exists>d'. d = l @ nl # d' \<and> splitOn nl d' = ls)" by simp_all
  have one: "filter (\<lambda>line. trim line \<noteq> []) (splitOn nl (trimEnd l)) =
        (if trim l = [] then [] else [trimEnd l])"
  proof -
    have "nl \<notin> set (trimEnd l)" using nol set_trimEnd by blast
    then show ?thesis by (simp add: splitOn_no_sep trim_trimEnd)
  qed
  from cs show ?case
  proof
    assume "ls = [] \<and> d = l"
    then show ?thesis using one nol by (simp add: splitOn_no_sep Let_def)
  next
    assume "\<exists>d'. d = l @ nl # d' \<and> splitOn nl d' = ls"
    then obtain d' where d: "d = l @ nl # d'" and ls: "splitOn nl d' = ls" by blast
    have sp: "splitOn nl d = l # splitOn nl d'"
      unfolding d using nol by (simp add: splitOn_append_sep splitOn_no_sep)
    show ?thesis
    proof (cases "\<forall>c\<in>set d'. isWhiteSpace c")
      case True
      then have "trimEnd d = trimEnd l"
        unfolding d by (intro trimEnd_append_drop) (simp add: isWhiteSpace_nl)
      then show ?thesis
        using one sp blank_lines_filtered[OF True] by (simp add: Let_def)
    next
      case False
      then have "trimEnd (l @ nl # d') = l @ trimEnd ([nl] @ d')"
        using trimEnd_append_keep[of "nl # d'" l] by simp
      also have "trimEnd ([nl] @ d') = [nl] @ trimEnd d'"
        using False by (rule trimEnd_append_keep)
      finally have te: "trimEnd d = l @ nl # trimEnd d'"
        unfolding d by simp
      have ne: "filter (\<lambda>line. trim line \<noteq> []) (splitOn nl d') \<noteq> []"
        using nonblank_in_splitOn[OF False] .
      have "filter (\<lambda>line. trim line \<noteq> []) (splitOn nl (trimEnd d))
          = filter (\<lambda>line. trim line \<noteq> []) [l]
            @ filter (\<lambda>line. trim line \<noteq> []) (splitOn nl (trimEnd d'))"
        unfolding te using nol by (simp add: splitOn_append_sep splitOn_no_sep)
      also have "filter (\<lambda>line. trim line \<noteq> []) (splitOn nl (trimEnd d'))
          = butlast (filter (\<lambda>line. trim line \<noteq> []) (splitOn nl d'))
            @ [trimEnd (last (filter (\<lambda>line. trim line \<noteq> []) (splitOn nl d')))]"
        using Cons.hyps(1)[OF ls[symmetric]] ne by (simp add: Let_def)
      finally show ?thesis
        using sp ne by (simp add: Let_def butlast_append)
    qed
  qed
qed

lemma nonBlankLines_untrimmed:
  "nonBlankLines content =
     (if untrimmedLines content = [] then []
      else butlast (untrimmedLines content) @ [trimEnd (last (untrimmedLines content))])"
  using nonBlank_trimEnd[of "trimStart content"]
  by (simp add: nonBlankLines_def untrimmedLines_def trim_trimEnd_trimStart Let_def)



lemma trimStart_append_keep:
  assumes "\<not> (\<forall>c\<in>set a. isWhiteSpace c)"
  shows "trimStart (a @ b) = trimStart a @ b"
proof -
  from assms obtain c where "c \<in> set a" "\<not> isWhiteSpace c" by auto
  then show ?thesis unfolding trimStart_def by (rule dropWhile_append1)
qed

lemma trimStart_append_drop:
  assumes "\<forall>c\<in>set a. isWhiteSpace c"
  shows "trimStart (a @ b) = trimStart b"
  unfolding trimStart_def using assms by (intro dropWhile_append2) simp

lemma trimStart_id: "l \<noteq> [] \<Longrightarrow> \<not> isWhiteSpace (hd l) \<Longrightarrow> trimStart l = l"
  by (cases l) (simp_all add: trimStart_def)

lemma parseLines_map_cong:
  "map p xs = map p ys \<Longrightarrow> parseLines p i xs = parseLines p i ys"
proof (induction xs arbitrary: ys i)
  case Nil
  then show ?case by simp
next
  case (Cons x xs)
  then obtain y ys' where ys: "ys = y # ys'" by (cases ys) auto
  with Cons.prems have px: "p x = p y" and m: "map p xs = map p ys'" by simp_all
  have ih: "parseLines p (i + 1) xs = parseLines p (i + 1) ys'"
    using m by (rule Cons.IH)
  show ?case unfolding ys by (simp only: parseLines.simps ih px)
qed

text \<open>When the last non-blank line parses the same with its trailing white space, the read
  gives what the untrimmed lines give.\<close>

lemma read_untrimmed:
  assumes "untrimmedLines content = []
           \<or> p (trimEnd (last (untrimmedLines content))) = p (last (untrimmedLines content))"
  shows "parseLines p i (nonBlankLines content) = parseLines p i (untrimmedLines content)"
proof (cases "untrimmedLines content = []")
  case True
  then show ?thesis by (simp add: nonBlankLines_untrimmed)
next
  case False
  with assms have e: "p (trimEnd (last (untrimmedLines content))) = p (last (untrimmedLines content))"
    by simp
  have "map p (butlast (untrimmedLines content) @ [trimEnd (last (untrimmedLines content))])
        = map p (butlast (untrimmedLines content) @ [last (untrimmedLines content)])"
    using e by simp
  also have "\<dots> = map p (untrimmedLines content)"
    using False by simp
  finally have "parseLines p i
         (butlast (untrimmedLines content) @ [trimEnd (last (untrimmedLines content))])
       = parseLines p i (untrimmedLines content)"
    by (rule parseLines_map_cong)
  then show ?thesis
    using False by (simp add: nonBlankLines_untrimmed)
qed

text \<open>The text after the last newline.\<close>

lemma unterminated_cases:
  "nl \<notin> set (unterminated content)
   \<and> (content = unterminated content \<or> (\<exists>h. content = h @ nl # unterminated content))"
proof (induction content)
  case Nil
  then show ?case by (simp add: unterminated_def)
next
  case (Cons c content)
  obtain p ps where sp: "splitOn nl content = p # ps"
    using splitOn_nonempty[of nl content] by (cases "splitOn nl content") auto
  show ?case
  proof (cases "c = nl")
    case True
    have u: "unterminated (c # content) = unterminated content"
      using True sp by (simp add: unterminated_def)
    from Cons show ?thesis
      unfolding u using True
      by (metis append_Cons append_Nil)
  next
    case False
    show ?thesis
    proof (cases ps)
      case Nil
      then have u: "unterminated (c # content) = c # unterminated content"
        using False sp by (simp add: unterminated_def)
      have "content = unterminated content"
        using splitOn_cases[OF sp] Nil sp splitOn_nonempty[of nl]
        by (auto simp add: unterminated_def)
      with Cons False show ?thesis unfolding u by auto
    next
      case (Cons q qs)
      then have u: "unterminated (c # content) = unterminated content"
        using False sp by (simp add: unterminated_def)
      have "content \<noteq> unterminated content"
      proof
        assume "content = unterminated content"
        then have "nl \<notin> set content" using Cons.IH by simp
        then show False using sp Cons by (simp add: splitOn_no_sep)
      qed
      with Cons.IH obtain h where "content = h @ nl # unterminated content" by blast
      then have "c # content = (c # h) @ nl # unterminated content" by simp
      with Cons.IH show ?thesis unfolding u by blast
    qed
  qed
qed

text \<open>The lines of a content after a clean line and a newline are appended to it, when
  only white space follows its last newline.\<close>

lemma lines_after_append_line:
  assumes tail: "\<forall>c\<in>set (unterminated content). isWhiteSpace c" and l: "cleanLine l"
  shows "nonBlankLines (content @ l @ [nl]) =
           (if untrimmedLines content = [] then [l]
            else untrimmedLines content @ [unterminated content @ l])"
proof -
  have l1: "l \<noteq> []" "\<not> isWhiteSpace (hd l)" "\<not> isWhiteSpace (last l)" "nl \<notin> set l"
    using l by (simp_all add: cleanLine_def)
  have tl: "trim l \<noteq> []" using l1 trim_clean[OF l] by simp
  show ?thesis
  proof (cases "\<forall>c\<in>set content. isWhiteSpace c")
    case True
    have "trimStart (content @ l @ [nl]) = trimStart (l @ [nl])"
      using True by (rule trimStart_append_drop)
    also have "\<dots> = l @ [nl]" using l1 by (intro trimStart_id) simp_all
    finally have "trim (content @ l @ [nl]) = trimEnd (l @ [nl])"
      by (simp add: trim_trimEnd_trimStart)
    also have "\<dots> = trimEnd l"
      by (intro trimEnd_append_drop) (simp add: isWhiteSpace_nl)
    also have "\<dots> = l" using l1 by (intro trimEnd_id)
    finally have a: "nonBlankLines (content @ l @ [nl]) = [l]"
      using l1 tl by (simp add: nonBlankLines_def splitOn_no_sep)
    have "trimStart content = []"
      using True by (simp add: trimStart_def)
    then have "untrimmedLines content = []"
      by (simp add: untrimmedLines_def trim_def)
    with a show ?thesis by simp
  next
    case False
    define t where "t = unterminated content"
    from unterminated_cases[of content] have not: "nl \<notin> set t"
      and cs: "content = t \<or> (\<exists>h. content = h @ nl # t)" by (simp_all add: t_def)
    have tail': "\<forall>c\<in>set t. isWhiteSpace c" using tail by (simp add: t_def)
    from cs False tail' obtain h where c: "content = h @ nl # t" by metis
    have hne: "\<not> (\<forall>c\<in>set h. isWhiteSpace c)"
    proof
      assume "\<forall>c\<in>set h. isWhiteSpace c"
      then have "\<forall>c\<in>set (h @ nl # t). isWhiteSpace c"
        using tail' by (auto simp add: isWhiteSpace_nl)
      with c False show False by simp
    qed
    let ?d = "trimStart h"
    have blank_t: "trim t = []" using tail' by (simp add: blank_iff)
    have nb: "\<not> (\<forall>c\<in>set (t @ l). isWhiteSpace c)"
      using l1 by (metis Un_iff hd_in_set set_append)
    have tl': "trim (t @ l) \<noteq> []" using nb by (simp add: blank_iff)
    have notl: "nl \<notin> set (t @ l)" using not l1 by simp
    have ts: "trimStart content = ?d @ nl # t"
      unfolding c using trimStart_append_keep[OF hne, of "nl # t"] by simp
    have u: "untrimmedLines content = filter (\<lambda>line. trim line \<noteq> []) (splitOn nl ?d)"
      using not blank_t by (simp add: untrimmedLines_def ts splitOn_append_sep splitOn_no_sep)
    have une: "untrimmedLines content \<noteq> []"
    proof -
      have dne: "?d \<noteq> []" using hne by (simp add: trimStart_def)
      have "\<not> (\<forall>c\<in>set ?d. isWhiteSpace c)"
      proof
        assume a: "\<forall>c\<in>set ?d. isWhiteSpace c"
        have "\<not> isWhiteSpace (hd ?d)"
          using dne unfolding trimStart_def by (rule hd_dropWhile)
        moreover have "hd ?d \<in> set ?d" using dne by simp
        ultimately show False using a by blast
      qed
      from nonblank_in_splitOn[OF this] show ?thesis by (simp add: u)
    qed
    have "trimStart (content @ l @ [nl]) = ?d @ nl # t @ l @ [nl]"
      unfolding c using trimStart_append_keep[OF hne, of "nl # t @ l @ [nl]"] by simp
    then have "trim (content @ l @ [nl]) = trimEnd ((?d @ nl # t @ l) @ [nl])"
      by (simp add: trim_trimEnd_trimStart)
    also have "\<dots> = trimEnd (?d @ nl # t @ l)"
      by (intro trimEnd_append_drop) (simp add: isWhiteSpace_nl)
    also have "\<dots> = ?d @ nl # t @ l"
      using l1 by (intro trimEnd_id) simp_all
    finally have tr: "trim (content @ l @ [nl]) = ?d @ nl # (t @ l)" by simp
    have "nonBlankLines (content @ l @ [nl])
          = filter (\<lambda>line. trim line \<noteq> []) (splitOn nl ?d) @ [t @ l]"
      unfolding nonBlankLines_def tr splitOn_append_sep splitOn_no_sep[OF notl]
      using tl' by simp
    with u une show ?thesis by (simp add: t_def)
  qed
qed

lemma parse_after_append_line:
  assumes tail: "\<forall>c\<in>set (unterminated content). isWhiteSpace c"
    and same: "untrimmedLines content = []
           \<or> (p (trimEnd (last (untrimmedLines content))) = p (last (untrimmedLines content))
              \<and> p (unterminated content @ l) = p l)"
    and l: "cleanLine l" and r: "p l = Inr r"
    and rd: "parseLines p 0 (nonBlankLines content) = Inr rs"
  shows "parseLines p 0 (nonBlankLines (content @ l @ [nl])) = Inr (rs @ [r])"
proof (cases "untrimmedLines content = []")
  case True
  then have "nonBlankLines content = []" by (simp add: nonBlankLines_untrimmed)
  with rd have "rs = []" by simp
  with True r show ?thesis
    by (simp add: lines_after_append_line[OF tail l])
next
  case False
  with same have e: "p (trimEnd (last (untrimmedLines content))) = p (last (untrimmedLines content))"
    and t: "p (unterminated content @ l) = p l" by simp_all
  have "parseLines p 0 (untrimmedLines content) = Inr rs"
    using read_untrimmed[of content p 0] e rd by simp
  with False r t show ?thesis
    by (simp add: lines_after_append_line[OF tail l] parseLines_append)
qed





lemma trimEnd_clean: "cleanLine l \<Longrightarrow> trimEnd l = l"
  by (simp add: cleanLine_def trimEnd_id)

lemma nonblank_clean: "cleanLine l \<Longrightarrow> trim l \<noteq> []"
  using trim_clean[of l] by (auto simp add: cleanLine_def)

lemma cleanLine_append: "cleanLine a \<Longrightarrow> cleanLine b \<Longrightarrow> cleanLine (a @ b)"
  by (simp add: cleanLine_def)


lemma unterminated_append: "unterminated (a @ nl # b) = unterminated b"
  using splitOn_nonempty[of nl b] by (simp add: unterminated_def splitOn_append_sep)

lemma unterminated_Nil: "unterminated [] = []"
  by (simp add: unterminated_def)

lemma untrimmedLines_one:
  assumes "a \<noteq> []" "\<not> isWhiteSpace (hd a)" "nl \<notin> set a" "\<forall>c\<in>set b. isWhiteSpace c"
  shows "untrimmedLines (a @ nl # b) = [a]"
proof -
  have "trimStart (a @ nl # b) = a @ nl # b"
    using assms(1,2) by (intro trimStart_id) simp_all
  moreover have "trim a \<noteq> []"
    using assms(1,2) by (auto simp add: blank_iff)
  ultimately show ?thesis
    using assms(3) blank_lines_filtered[OF assms(4)]
    by (simp add: untrimmedLines_def splitOn_append_sep splitOn_no_sep)
qed

lemma takesLine_Nil: "takesLine pf [] l"
  by (simp add: takesLine_def unterminated_def untrimmedLines_def trimStart_def trim_def)

lemma takesLine_terminated:
  assumes "content = [] \<or> last content = nl"
    and "untrimmedLines content = [] \<or> \<not> isWhiteSpace (last (last (untrimmedLines content)))"
  shows "takesLine pf content l"
proof -
  define t where "t = unterminated content"
  from unterminated_cases[of content] have not: "nl \<notin> set t"
    and cs: "content = t \<or> (\<exists>h. content = h @ nl # t)" by (simp_all add: t_def)
  have t: "t = []"
  proof (rule ccontr)
    assume ne: "t \<noteq> []"
    then have "last content = last t" using cs by auto
    moreover have "content \<noteq> []" using cs ne by auto
    ultimately have "last t = nl" using assms(1) by simp
    then show False using not ne last_in_set by metis
  qed
  have "parse pf (trimEnd (last (untrimmedLines content))) = parse pf (last (untrimmedLines content))"
    if ne: "untrimmedLines content \<noteq> []"
  proof -
    have "last (untrimmedLines content) \<in> set (untrimmedLines content)" using ne by simp
    then have "trim (last (untrimmedLines content)) \<noteq> []" by (simp add: untrimmedLines_def)
    then have "last (untrimmedLines content) \<noteq> []" by (auto simp add: trim_def)
    then show ?thesis using assms(2) ne by (simp add: trimEnd_id)
  qed
  then show ?thesis
    using t by (auto simp add: takesLine_def t_def[symmetric])
qed

section \<open>Lemmas: reading and appending\<close>

lemma files_mkdirSync: "files (mkdirSync s d) = files s"
  by (simp add: mkdirSync_def)

lemma exists_after_append: "existsSync (appendFileSync s1 p line) p"
  by (simp add: existsSync_def appendFileSync_def)

lemma paths_distinct:
  "getPromisesPath rootDir \<noteq> getReportsPath rootDir"
  "getReportsPath rootDir \<noteq> getPromisesPath rootDir"
  "getLedgerPath rootDir \<noteq> getPromisesPath rootDir"
  "getLedgerPath rootDir \<noteq> getReportsPath rootDir"
  by (simp_all add: getPromisesPath_def getReportsPath_def getLedgerPath_def)

lemma readFileSync_cong:
  "files s1 p = files s p \<Longrightarrow> readFileSync s1 p = readFileSync s p"
  by (simp add: readFileSync_def)

lemma readLedger_lines:
  "readLedger pf s rootDir = parseLines (parse pf) 0 (nonBlankLines (readFileSync s (getLedgerPath rootDir)))"
  by (simp add: readLedger_def existsSync_def readFileSync_def nonBlankLines_Nil split: option.splits)

lemma readPromises_lines:
  "readPromises pf s rootDir = parseLines (parse pf) 0 (nonBlankLines (readFileSync s (getPromisesPath rootDir)))"
  by (simp add: readPromises_def existsSync_def readFileSync_def nonBlankLines_Nil split: option.splits)

lemma readReports_lines:
  "readReports pf s rootDir = parseLines (parse pf) 0 (nonBlankLines (readFileSync s (getReportsPath rootDir)))"
  by (simp add: readReports_def existsSync_def readFileSync_def nonBlankLines_Nil split: option.splits)

lemma readPromises_cong:
  "files s1 (getPromisesPath rootDir) = files s (getPromisesPath rootDir)
     \<Longrightarrow> readPromises pf s1 rootDir = readPromises pf s rootDir"
  by (simp add: readPromises_lines readFileSync_def)

lemma readReports_cong:
  "files s1 (getReportsPath rootDir) = files s (getReportsPath rootDir)
     \<Longrightarrow> readReports pf s1 rootDir = readReports pf s rootDir"
  by (simp add: readReports_lines readFileSync_def)

lemma read_after_append:
  assumes takes: "takesLine pf (readFileSync s p) l" and same: "files s1 = files s"
    and l: "cleanLine l" and r: "parse pf l = Inr r"
    and before: "parseLines (parse pf) 0 (nonBlankLines (readFileSync s p)) = Inr rs"
  shows "parseLines (parse pf) 0 (nonBlankLines (readFileSync (appendFileSync s1 p (l @ [nl])) p))
           = Inr (rs @ [r])"
proof -
  have "readFileSync (appendFileSync s1 p (l @ [nl])) p = readFileSync s p @ l @ [nl]"
    using same by (simp add: readFileSync_def appendFileSync_def)
  moreover from takes have "\<forall>c\<in>set (unterminated (readFileSync s p)). isWhiteSpace c"
    and "untrimmedLines (readFileSync s p) = []
           \<or> (parse pf (trimEnd (last (untrimmedLines (readFileSync s p))))
                 = parse pf (last (untrimmedLines (readFileSync s p)))
              \<and> parse pf (unterminated (readFileSync s p) @ l) = parse pf l)"
    by (simp_all add: takesLine_def)
  ultimately show ?thesis
    using parse_after_append_line[OF _ _ l r before] by simp
qed

lemma readLedger_after_appendEntry:
  assumes "isValidEntry pf r" "roundTrips pf r"
    "takesLine pf (readFileSync s (getLedgerPath rootDir)) (stringify pf r)"
    "readLedger pf s rootDir = Inr rs"
  shows "fst (appendEntry pf s rootDir r) = Inr ()"
    and "readLedger pf (snd (appendEntry pf s rootDir r)) rootDir = Inr (rs @ [r])"
proof -
  show "fst (appendEntry pf s rootDir r) = Inr ()"
    using assms(1) by (simp add: appendEntry_def Let_def)
  have same: "files (if rootDir \<notin> dirs s then mkdirSync s rootDir else s) = files s"
    by (simp add: files_mkdirSync)
  from read_after_append[OF assms(3) same, of r rs]
  show "readLedger pf (snd (appendEntry pf s rootDir r)) rootDir = Inr (rs @ [r])"
    using assms by (simp add: appendEntry_def Let_def readLedger_lines roundTrips_def)
qed

lemma readPromises_after_appendPromise:
  assumes "isValidPromise pf r" "roundTrips pf r"
    "takesLine pf (readFileSync s (getPromisesPath rootDir)) (stringify pf r)"
    "readPromises pf s rootDir = Inr rs"
  shows "fst (appendPromise pf s rootDir r) = Inr ()"
    and "readPromises pf (snd (appendPromise pf s rootDir r)) rootDir = Inr (rs @ [r])"
proof -
  show "fst (appendPromise pf s rootDir r) = Inr ()"
    using assms(1) by (simp add: appendPromise_def Let_def)
  have same: "files (if rootDir \<notin> dirs s then mkdirSync s rootDir else s) = files s"
    by (simp add: files_mkdirSync)
  from read_after_append[OF assms(3) same, of r rs]
  show "readPromises pf (snd (appendPromise pf s rootDir r)) rootDir = Inr (rs @ [r])"
    using assms by (simp add: appendPromise_def Let_def readPromises_lines roundTrips_def)
qed

lemma readReports_after_appendReport:
  assumes "isValidReport pf r" "roundTrips pf r"
    "takesLine pf (readFileSync s (getReportsPath rootDir)) (stringify pf r)"
    "readReports pf s rootDir = Inr rs"
  shows "fst (appendReport pf s rootDir r) = Inr ()"
    and "readReports pf (snd (appendReport pf s rootDir r)) rootDir = Inr (rs @ [r])"
proof -
  show "fst (appendReport pf s rootDir r) = Inr ()"
    using assms(1) by (simp add: appendReport_def Let_def)
  have same: "files (if rootDir \<notin> dirs s then mkdirSync s rootDir else s) = files s"
    by (simp add: files_mkdirSync)
  from read_after_append[OF assms(3) same, of r rs]
  show "readReports pf (snd (appendReport pf s rootDir r)) rootDir = Inr (rs @ [r])"
    using assms by (simp add: appendReport_def Let_def readReports_lines roundTrips_def)
qed


text \<open>The path match of \<open>readByFile\<close> is the substring match, and what \<open>find\<close> gives.\<close>

lemma str_includes_refl: "str_includes x x"
  by (cases x) simp_all

lemma readByFile_includes:
  "readByFile pf s rootDir f =
     (case readLedger pf s rootDir of
        Inl e \<Rightarrow> Inl e
      | Inr entries \<Rightarrow>
          Inr (filter (\<lambda>e. list_ex (\<lambda>a. str_includes (artifact_path a) f) (artifacts e)) entries))"
proof -
  have "(artifact_path a = f \<or> str_includes (artifact_path a) f) = str_includes (artifact_path a) f"
    for a :: ArtifactChange
    using str_includes_refl[of f] by auto
  then show ?thesis by (simp add: readByFile_def split: sum.splits)
qed

lemma find_differs:
  "find P xs = None \<longleftrightarrow> (\<forall>x\<in>set xs. \<not> P x)"
  "find P xs = Some x \<Longrightarrow> x \<in> set xs \<and> P x"
  "\<exists>x\<in>set xs. P x \<Longrightarrow> \<exists>x\<in>set xs. find P xs = Some x"
proof -
  show "find P xs = None \<longleftrightarrow> (\<forall>x\<in>set xs. \<not> P x)" by (auto simp add: find_None_iff)
  show "find P xs = Some x \<Longrightarrow> x \<in> set xs \<and> P x"
    by (auto simp add: find_Some_iff)
  show "\<exists>x\<in>set xs. P x \<Longrightarrow> \<exists>x\<in>set xs. find P xs = Some x"
    by (induction xs) auto
qed

section \<open>Lemmas: resolving a promise\<close>

lemma resolvePromise_found:
  assumes "readPromises pf s rootDir = Inr ps"
    and "findIndex (\<lambda>q. promise_id q = pid) ps = Some i"
  shows "resolvePromise pf now s rootDir pid st resolver =
           (Inr (Some ((ps ! i)\<lparr>status := st, resolvedBy := resolver, resolvedAt := Some now\<rparr>)),
            writeFileSync s (getPromisesPath rootDir)
              (joinWith nl (map (stringify pf)
                 (ps[i := (ps ! i)\<lparr>status := st, resolvedBy := resolver, resolvedAt := Some now\<rparr>]))
               @ [nl]))"
proof -
  from findIndex_Some[OF assms(2)] have "i < length ps" by simp
  then show ?thesis
    using assms by (simp add: resolvePromise_def Let_def)
qed

lemma resolvePromise_absent:
  assumes "readPromises pf s rootDir = Inr ps"
    and "find (\<lambda>q. promise_id q = pid) ps = None"
  shows "resolvePromise pf now s rootDir pid st resolver = (Inr None, s)"
  using assms findIndex_None[of "\<lambda>q. promise_id q = pid" ps]
  by (simp add: resolvePromise_def)

lemma readPromises_after_rewrite:
  assumes "ps \<noteq> []" and "\<forall>q\<in>set ps. roundTrips pf q"
  shows "readPromises pf
           (writeFileSync s (getPromisesPath rootDir) (joinWith nl (map (stringify pf) ps) @ [nl]))
           rootDir = Inr ps"
proof -
  have c: "joinWith nl (map (stringify pf) ps) @ [nl] = jsonl (map (stringify pf) ps)"
    using assms(1) by (intro joinWith_jsonl) simp
  have cl: "\<forall>l\<in>set (map (stringify pf) ps). cleanLine l"
    using assms(2) by (simp add: roundTrips_def)
  have bk: "\<forall>q\<in>set ps. parse pf (stringify pf q) = Inr q"
    using assms(2) by (simp add: roundTrips_def)
  show ?thesis
    unfolding c
    by (simp add: readPromises_lines readFileSync_def writeFileSync_def
        nonBlankLines_jsonl[OF cl] parseLines_stringify[OF bk])
qed

lemma resolvePromise_stored:
  assumes rd: "readPromises pf s rootDir = Inr ps"
    and found: "find (\<lambda>q. promise_id q = pid) ps = Some p"
    and rt: "\<forall>q\<in>set ps. roundTrips pf q"
    and rt': "roundTrips pf (p\<lparr>status := st, resolvedBy := resolver, resolvedAt := Some now\<rparr>)"
  shows "fst (resolvePromise pf now s rootDir pid st resolver)
           = Inr (Some (p\<lparr>status := st, resolvedBy := resolver, resolvedAt := Some now\<rparr>))"
    and "getPromiseById pf (snd (resolvePromise pf now s rootDir pid st resolver)) rootDir pid
           = Inr (Some (p\<lparr>status := st, resolvedBy := resolver, resolvedAt := Some now\<rparr>))"
proof -
  let ?p' = "p\<lparr>status := st, resolvedBy := resolver, resolvedAt := Some now\<rparr>"
  from findIndex_find[OF found] obtain i
    where i: "findIndex (\<lambda>q. promise_id q = pid) ps = Some i" and pi: "ps ! i = p" by blast
  from findIndex_Some[OF i] have len: "i < length ps" and idp: "promise_id p = pid"
    using pi by auto
  note res = resolvePromise_found[OF rd i, of now st resolver, unfolded pi]
  show "fst (resolvePromise pf now s rootDir pid st resolver) = Inr (Some ?p')"
    by (simp add: res)
  have ne: "ps[i := ?p'] \<noteq> []" using len by auto
  have all: "\<forall>q\<in>set (ps[i := ?p']). roundTrips pf q"
    using rt rt' set_update_subset_insert[of ps i ?p'] by auto
  have "find (\<lambda>q. promise_id q = pid) (ps[i := ?p']) = Some ?p'"
    using i idp by (intro find_update_first) simp_all
  then show "getPromiseById pf (snd (resolvePromise pf now s rootDir pid st resolver)) rootDir pid
           = Inr (Some ?p')"
    by (simp add: res getPromiseById_def readPromises_after_rewrite[OF ne all])
qed

lemma files_after_writePromises:
  "files (writeFileSync s1 (getPromisesPath rootDir) content) (getReportsPath rootDir)
     = files s1 (getReportsPath rootDir)"
  by (simp add: writeFileSync_def paths_distinct)

lemma resolvePromise_keeps_reports:
  assumes "readPromises pf s1 rootDir = Inr ps"
    and "find (\<lambda>q. promise_id q = pid) ps = Some p"
  shows "files (snd (resolvePromise pf now s1 rootDir pid st resolver)) (getReportsPath rootDir)
           = files s1 (getReportsPath rootDir)"
proof -
  from findIndex_find[OF assms(2)] obtain i
    where i: "findIndex (\<lambda>q. promise_id q = pid) ps = Some i" by blast
  show ?thesis
    by (simp add: resolvePromise_found[OF assms(1) i] files_after_writePromises)
qed

lemma id_or_startsWith: "(x = ref \<or> startsWith x ref) = startsWith x ref"
  by (auto simp add: startsWith_def)

lemma findPromiseByRef_startsWith:
  "findPromiseByRef ps ref = find (\<lambda>q. startsWith (promise_id q) ref) ps"
  by (simp add: findPromiseByRef_def id_or_startsWith)

lemma findPromiseByRef_findIndex:
  assumes "findPromiseByRef ps ref = Some p"
  shows "\<exists>i. findIndex (\<lambda>q. promise_id q = promise_id p) ps = Some i \<and> ps ! i = p"
proof -
  from assms have f: "find (\<lambda>q. startsWith (promise_id q) ref) ps = Some p"
    by (simp add: findPromiseByRef_startsWith)
  then have "startsWith (promise_id p) ref"
    by (auto simp add: find_Some_iff)
  then have "find (\<lambda>q. promise_id q = promise_id p) ps = Some p"
    using f by (intro find_first_match_index[OF f]) simp_all
  then show ?thesis by (rule findIndex_find)
qed

lemma promiseResolveCommand_found:
  assumes rd: "readPromises pf s rootDir = Inr ps"
    and st: "map_of validStatuses statusOption = Some st"
    and f: "findPromiseByRef ps ref = Some p"
  shows "fst (promiseResolveCommand pf now s rootDir ref statusOption)
           = Inr (PromiseResolved (p\<lparr>status := st, resolvedBy := None, resolvedAt := Some now\<rparr>))"
proof -
  from findPromiseByRef_findIndex[OF f] obtain i
    where i: "findIndex (\<lambda>q. promise_id q = promise_id p) ps = Some i" and pi: "ps ! i = p"
    by blast
  show ?thesis
    using rd st f
    by (simp add: promiseResolveCommand_def resolvePromise_found[OF rd i] pi)
qed

lemma promiseResolveCommand_first_match:
  assumes rd: "readPromises pf s rootDir = Inr ps"
    and st: "map_of validStatuses statusOption = Some st"
    and f: "findPromiseByRef ps ref = Some p"
  shows "\<exists>i. findIndex (\<lambda>q. startsWith (promise_id q) ref) ps = Some i \<and> ps ! i = p
           \<and> findIndex (\<lambda>q. promise_id q = promise_id p) ps = Some i
           \<and> promiseResolveCommand pf now s rootDir ref statusOption
               = (Inr (PromiseResolved (p\<lparr>status := st, resolvedBy := None, resolvedAt := Some now\<rparr>)),
                  writeFileSync s (getPromisesPath rootDir)
                    (joinWith nl (map (stringify pf)
                       (ps[i := p\<lparr>status := st, resolvedBy := None, resolvedAt := Some now\<rparr>]))
                     @ [nl]))"
proof -
  from f have fs: "find (\<lambda>q. startsWith (promise_id q) ref) ps = Some p"
    by (simp add: findPromiseByRef_startsWith)
  from findIndex_find[OF fs] obtain i1
    where i1: "findIndex (\<lambda>q. startsWith (promise_id q) ref) ps = Some i1" and p1: "ps ! i1 = p"
    by blast
  from findPromiseByRef_findIndex[OF f] obtain i
    where i: "findIndex (\<lambda>q. promise_id q = promise_id p) ps = Some i" and pi: "ps ! i = p"
    by blast
  from findIndex_Some[OF i1] have a: "startsWith (promise_id p) ref"
    "\<forall>j<i1. \<not> startsWith (promise_id (ps ! j)) ref" using p1 by simp_all
  from findIndex_Some[OF i] have b: "\<forall>j<i. promise_id (ps ! j) \<noteq> promise_id p" by simp
  have "\<not> i < i1" using a pi by auto
  moreover have "\<not> i1 < i" using b p1 by auto
  ultimately have e: "i1 = i" by simp
  have "promiseResolveCommand pf now s rootDir ref statusOption
               = (Inr (PromiseResolved (p\<lparr>status := st, resolvedBy := None, resolvedAt := Some now\<rparr>)),
                  writeFileSync s (getPromisesPath rootDir)
                    (joinWith nl (map (stringify pf)
                       (ps[i := p\<lparr>status := st, resolvedBy := None, resolvedAt := Some now\<rparr>]))
                     @ [nl]))"
    using rd st f
    by (simp add: promiseResolveCommand_def resolvePromise_found[OF rd i] pi)
  with i1 p1 i e show ?thesis by blast
qed

section \<open>Lemmas: a verdict on a stored promise\<close>

text \<open>The outcomes of \<open>addVerdict\<close>: no promise, a partial verdict, a final verdict.\<close>

lemma appendReport_valid:
  "isValidReport pf r \<Longrightarrow>
     appendReport pf s rootDir r =
       (Inr (), appendFileSync (if rootDir \<notin> dirs s then mkdirSync s rootDir else s)
                  (getReportsPath rootDir) (stringify pf r @ [nl]))"
  by (simp add: appendReport_def Let_def)

lemma files_after_appendReport:
  "files (appendFileSync (if rootDir \<notin> dirs s then mkdirSync s rootDir else s)
            (getReportsPath rootDir) line) (getPromisesPath rootDir)
     = files s (getPromisesPath rootDir)"
  by (simp add: appendFileSync_def mkdirSync_def paths_distinct)

lemma readFileSync_after_appendReport:
  "readFileSync (appendFileSync (if rootDir \<notin> dirs s then mkdirSync s rootDir else s)
            (getReportsPath rootDir) line) (getReportsPath rootDir)
     = readFileSync s (getReportsPath rootDir) @ line"
  by (simp add: appendFileSync_def mkdirSync_def readFileSync_def)

lemma addVerdict_absent:
  assumes "readPromises pfP s rootDir = Inr ps" and "find (\<lambda>q. promise_id q = pid) ps = None"
  shows "addVerdict pfP pfR uuid tReport tResolve s rootDir pid v reasoningText reporterAgent
           = (Inr None, s)"
  using assms by (simp add: addVerdict_def getPromiseById_def)

lemma addVerdict_partial:
  assumes rd: "readPromises pfP s rootDir = Inr ps"
    and found: "find (\<lambda>q. promise_id q = pid) ps = Some p"
    and r: "r = createVerdictReport uuid tReport
                  \<lparr>reporter_agent = (case reporterAgent of None \<Rightarrow> ''human'' | Some a \<Rightarrow> a),
                   role = Human, reporter_session = None\<rparr>
                  pid \<lparr>verdict_status = VerdictPartial, verdict_reasoning = reasoningText\<rparr>
                  None None None"
    and valid: "isValidReport pfR r"
  shows "addVerdict pfP pfR uuid tReport tResolve s rootDir pid VerdictPartial reasoningText
           reporterAgent
         = (Inr (Some (r, p)),
            appendFileSync (if rootDir \<notin> dirs s then mkdirSync s rootDir else s)
              (getReportsPath rootDir) (stringify pfR r @ [nl]))"
  using rd found valid unfolding r
  by (simp add: addVerdict_def getPromiseById_def Let_def appendReport_valid)

lemma addVerdict_final:
  assumes rd: "readPromises pfP s rootDir = Inr ps"
    and found: "find (\<lambda>q. promise_id q = pid) ps = Some p"
    and v: "v \<noteq> VerdictPartial"
    and r: "r = createVerdictReport uuid tReport
                  \<lparr>reporter_agent = (case reporterAgent of None \<Rightarrow> ''human'' | Some a \<Rightarrow> a),
                   role = Human, reporter_session = None\<rparr>
                  pid \<lparr>verdict_status = v, verdict_reasoning = reasoningText\<rparr>
                  None None None"
    and valid: "isValidReport pfR r"
    and s1: "s1 = appendFileSync (if rootDir \<notin> dirs s then mkdirSync s rootDir else s)
                    (getReportsPath rootDir) (stringify pfR r @ [nl])"
    and st: "st = (if v = VerdictFulfilled then Fulfilled else Broken)"
  shows "addVerdict pfP pfR uuid tReport tResolve s rootDir pid v reasoningText reporterAgent
         = (case resolvePromise pfP tResolve s1 rootDir pid st (Some uuid) of
              (res, s2) \<Rightarrow> (Inr (Some (r, p\<lparr>status := st, resolvedBy := Some uuid,
                                              resolvedAt := Some tResolve\<rparr>)), s2))"
proof -
  have rd1: "readPromises pfP s1 rootDir = Inr ps"
    unfolding s1 using rd readPromises_cong[OF files_after_appendReport] by simp
  from findIndex_find[OF found] obtain i
    where i: "findIndex (\<lambda>q. promise_id q = pid) ps = Some i" and pi: "ps ! i = p" by blast
  note res = resolvePromise_found[OF rd1 i, of tResolve st "Some uuid", unfolded pi]
  have uid: "report_id r = uuid" by (simp add: r createVerdictReport_def)
  have stv: "(if v = VerdictFulfilled then Fulfilled else if v = VerdictBroken then Broken else Active)
               = st"
    using v st by (cases v) simp_all
  have sta: "st \<noteq> Active" using st by simp
  have "addVerdict pfP pfR uuid tReport tResolve s rootDir pid v reasoningText reporterAgent
        = (case resolvePromise pfP tResolve s1 rootDir pid st (Some (report_id r)) of
                          (Inl e, s2) \<Rightarrow> (Inl e, s2)
                        | (Inr None, s2) \<Rightarrow> (Inr (Some (r, p)), s2)
                        | (Inr (Some updatedPromise), s2) \<Rightarrow> (Inr (Some (r, updatedPromise)), s2))"
    using rd found valid sta unfolding r s1
    by (simp add: addVerdict_def getPromiseById_def Let_def appendReport_valid stv)
  then show ?thesis
    by (simp add: uid res)
qed

lemma addVerdict_invalid_report:
  assumes "readPromises pfP s rootDir = Inr ps"
    and "find (\<lambda>q. promise_id q = pid) ps = Some p"
    and "r = createVerdictReport uuid tReport
               \<lparr>reporter_agent = (case reporterAgent of None \<Rightarrow> ''human'' | Some a \<Rightarrow> a),
                role = Human, reporter_session = None\<rparr>
               pid \<lparr>verdict_status = v, verdict_reasoning = reasoningText\<rparr> None None None"
    and "\<not> isValidReport pfR r"
  shows "addVerdict pfP pfR uuid tReport tResolve s rootDir pid v reasoningText reporterAgent
           = (Inl (InvalidReport (getReportValidationErrors pfR r)), s)"
  using assms(1,2,4) unfolding assms(3)
  by (simp add: addVerdict_def getPromiseById_def Let_def appendReport_def)

lemma addVerdict_valid_report:
  assumes "readPromises pfP s rootDir = Inr ps"
    and "find (\<lambda>q. promise_id q = pid) ps = Some p"
    and "r = createVerdictReport uuid tReport
               \<lparr>reporter_agent = (case reporterAgent of None \<Rightarrow> ''human'' | Some a \<Rightarrow> a),
                role = Human, reporter_session = None\<rparr>
               pid \<lparr>verdict_status = v, verdict_reasoning = reasoningText\<rparr> None None None"
    and "isValidReport pfR r"
    and "p' = p\<lparr>status := (if v = VerdictFulfilled then Fulfilled else Broken),
                 resolvedBy := Some uuid, resolvedAt := Some tResolve\<rparr>"
    and "(result, s') =
           addVerdict pfP pfR uuid tReport tResolve s rootDir pid v reasoningText reporterAgent"
  shows "verdict r = Some \<lparr>verdict_status = v, verdict_reasoning = reasoningText\<rparr>
         \<and> promiseId r = pid
         \<and> readFileSync s' (getReportsPath rootDir)
             = readFileSync s (getReportsPath rootDir) @ stringify pfR r @ [nl]
         \<and> (roundTrips pfR r \<and> takesLine pfR (readFileSync s (getReportsPath rootDir)) (stringify pfR r)
              \<and> readReports pfR s rootDir = Inr rs
            \<longrightarrow> readReports pfR s' rootDir = Inr (rs @ [r]))
         \<and> (v = VerdictFulfilled \<longrightarrow> result = Inr (Some (r, p')) \<and> status p' = Fulfilled)
         \<and> (v = VerdictBroken \<longrightarrow> result = Inr (Some (r, p')) \<and> status p' = Broken)
         \<and> (v \<noteq> VerdictPartial \<and> (\<forall>q\<in>set ps. roundTrips pfP q) \<and> roundTrips pfP p'
            \<longrightarrow> getPromiseById pfP s' rootDir pid = Inr (Some p'))
         \<and> (v = VerdictPartial
            \<longrightarrow> result = Inr (Some (r, p))
                \<and> files s' (getPromisesPath rootDir) = files s (getPromisesPath rootDir)
                \<and> getPromiseById pfP s' rootDir pid = Inr (Some p))"
proof -
  define s1 where "s1 = appendFileSync (if rootDir \<notin> dirs s then mkdirSync s rootDir else s)
                    (getReportsPath rootDir) (stringify pfR r @ [nl])"
  define st where "st = (if v = VerdictFulfilled then Fulfilled else Broken)"
  note rd = assms(1) and found = assms(2) and r = assms(3) and valid = assms(4)
    and p' = assms(5) and res = assms(6)
  have s1_app: "s1 = snd (appendReport pfR s rootDir r)"
    by (simp add: appendReport_valid[OF valid] s1_def)
  have rep: "verdict r = Some \<lparr>verdict_status = v, verdict_reasoning = reasoningText\<rparr>
         \<and> promiseId r = pid"
    by (simp add: r createVerdictReport_def)
  have rd1: "readPromises pfP s1 rootDir = Inr ps"
    unfolding s1_def using rd readPromises_cong[OF files_after_appendReport] by simp
  have file1: "readFileSync s1 (getReportsPath rootDir)
             = readFileSync s (getReportsPath rootDir) @ stringify pfR r @ [nl]"
    unfolding s1_def by (rule readFileSync_after_appendReport)
  have read1: "readReports pfR s1 rootDir = Inr (rs @ [r])"
    if "roundTrips pfR r" "takesLine pfR (readFileSync s (getReportsPath rootDir)) (stringify pfR r)"
      "readReports pfR s rootDir = Inr rs"
    unfolding s1_app using readReports_after_appendReport(2)[OF valid that] .
  show ?thesis
  proof (cases "v = VerdictPartial")
    case True
    from addVerdict_partial[OF rd found r[unfolded True] valid, of tResolve] res True
    have result: "result = Inr (Some (r, p))" and s': "s' = s1"
      by (simp_all add: s1_def)
    have keep: "files s' (getPromisesPath rootDir) = files s (getPromisesPath rootDir)"
      unfolding s' s1_def by (rule files_after_appendReport)
    have "getPromiseById pfP s' rootDir pid = Inr (Some p)"
      using rd1 found by (simp add: getPromiseById_def s')
    with True rep result keep file1 read1 show ?thesis
      by (simp add: s')
  next
    case False
    let ?res = "resolvePromise pfP tResolve s1 rootDir pid st (Some uuid)"
    have p'st: "p' = p\<lparr>status := st, resolvedBy := Some uuid, resolvedAt := Some tResolve\<rparr>"
      by (simp add: p' st_def)
    from addVerdict_final[OF rd found False r valid s1_def st_def, of tResolve]
    have "addVerdict pfP pfR uuid tReport tResolve s rootDir pid v reasoningText reporterAgent
            = (Inr (Some (r, p')), snd ?res)"
      by (simp add: split_beta p'st)
    with res have result: "result = Inr (Some (r, p'))" and s': "s' = snd ?res"
      by simp_all
    have same: "files s' (getReportsPath rootDir) = files s1 (getReportsPath rootDir)"
      unfolding s' by (rule resolvePromise_keeps_reports[OF rd1 found])
    have file2: "readFileSync s' (getReportsPath rootDir)
             = readFileSync s (getReportsPath rootDir) @ stringify pfR r @ [nl]"
      using readFileSync_cong[OF same] file1 by simp
    have read2: "readReports pfR s' rootDir = Inr (rs @ [r])"
      if "roundTrips pfR r" "takesLine pfR (readFileSync s (getReportsPath rootDir)) (stringify pfR r)"
        "readReports pfR s rootDir = Inr rs"
      using readReports_cong[OF same] read1[OF that] by simp
    have stored: "getPromiseById pfP s' rootDir pid = Inr (Some p')"
      if "\<forall>q\<in>set ps. roundTrips pfP q" "roundTrips pfP p'"
      unfolding s'
      using resolvePromise_stored(2)[OF rd1 found that(1),
          where st = st and resolver = "Some uuid" and now = tResolve] that(2)
      by (simp add: p'st)
    have stat: "v = VerdictFulfilled \<longrightarrow> status p' = Fulfilled"
      "v = VerdictBroken \<longrightarrow> status p' = Broken"
      by (simp_all add: p')
    from False rep result file2 read2 stored stat show ?thesis
      by simp
  qed
qed

section \<open>Lemmas: the sample store\<close>

lemma clean_samples:
  "cleanLine line_entry1" "cleanLine line_entry2" "cleanLine line_malformed"
  "cleanLine line_promiseA" "cleanLine line_promiseB" "cleanLine line_promiseA_fulfilled"
  "cleanLine line_promiseA_broken" "cleanLine line_report1"
  by code_simp+

lemma lines_distinct:
  "line_entry1 \<noteq> line_entry2" "line_entry2 \<noteq> line_entry1" "line_malformed \<noteq> line_entry1" "line_malformed \<noteq> line_entry2"
  "distinct [line_promiseA, line_promiseB, line_promiseA_fulfilled, line_promiseA_broken]"
  by code_simp+

lemma entries_distinct: "entry1 \<noteq> entry2" "entry2 \<noteq> entry1"
  by (simp_all add: entry1_def entry2_def)

lemma promises_distinct:
  "promiseA \<noteq> promiseB" "promiseA \<noteq> promiseA_fulfilled" "promiseA \<noteq> promiseA_broken"
  "promiseB \<noteq> promiseA" "promiseB \<noteq> promiseA_fulfilled" "promiseB \<noteq> promiseA_broken"
  "promiseA_fulfilled \<noteq> promiseA" "promiseA_fulfilled \<noteq> promiseB" "promiseA_fulfilled \<noteq> promiseA_broken"
  "promiseA_broken \<noteq> promiseA" "promiseA_broken \<noteq> promiseB" "promiseA_broken \<noteq> promiseA_fulfilled"
  by (simp_all add: promiseA_def promiseB_def promiseA_fulfilled_def promiseA_broken_def)

lemma entryPlatform_parse:
  "parse entryPlatform line_entry1 = Inr entry1"
  "parse entryPlatform line_entry2 = Inr entry2"
  "parse entryPlatform line_malformed = Inl ''Unexpected token''"
  using lines_distinct by (simp_all add: entryPlatform_def tablePlatform_def)

lemma entryPlatform_stringify:
  "stringify entryPlatform entry1 = line_entry1"
  "stringify entryPlatform entry2 = line_entry2"
  using entries_distinct by (simp_all add: entryPlatform_def tablePlatform_def)

lemma createVerdictReport_reportSchema:
  "reportSchema (createVerdictReport uuid now rep pid v workDone related tgs)"
  by (simp add: reportSchema_def createVerdictReport_def)

lemma entryPlatform_validate:
  "validate entryPlatform entry1" "validate entryPlatform entry2" "\<not> validate entryPlatform entryBad"
  by (simp_all add: entryPlatform_def tablePlatform_def entrySchema_def entry1_def entry2_def entryBad_def)

lemma promisePlatform_parse:
  "parse promisePlatform line_promiseA = Inr promiseA"
  "parse promisePlatform line_promiseB = Inr promiseB"
  "parse promisePlatform line_promiseA_fulfilled = Inr promiseA_fulfilled"
  "parse promisePlatform line_promiseA_broken = Inr promiseA_broken"
  using lines_distinct by (auto simp add: promisePlatform_def tablePlatform_def)

lemma promisePlatform_stringify:
  "stringify promisePlatform promiseA = line_promiseA"
  "stringify promisePlatform promiseB = line_promiseB"
  "stringify promisePlatform promiseA_fulfilled = line_promiseA_fulfilled"
  "stringify promisePlatform promiseA_broken = line_promiseA_broken"
  using promises_distinct by (simp_all add: promisePlatform_def tablePlatform_def)

lemma reportPlatform_codec:
  "parse reportPlatform line_report1 = Inr report1"
  "stringify reportPlatform report1 = line_report1"
  "validate reportPlatform report1"
  by (simp_all add: reportPlatform_def tablePlatform_def reportSchema_def report1_def)

lemma sample_roundTrips:
  "roundTrips entryPlatform entry1" "roundTrips entryPlatform entry2"
  "roundTrips promisePlatform promiseA" "roundTrips promisePlatform promiseB"
  "roundTrips promisePlatform promiseA_fulfilled" "roundTrips promisePlatform promiseA_broken"
  "roundTrips reportPlatform report1"
  by (simp_all add: roundTrips_def entryPlatform_stringify entryPlatform_parse
      promisePlatform_stringify promisePlatform_parse reportPlatform_codec clean_samples)

lemma sample_promise_ids:
  "promise_id promiseA = ''abc1''" "promise_id promiseB = ''abc2''"
  "promise_id promiseA_fulfilled = ''abc1''" "promise_id promiseA_broken = ''abc1''"
  by (simp_all add: promiseA_def promiseB_def promiseA_fulfilled_def promiseA_broken_def)

lemma store_files:
  "files (storeOf a b c) (''/repo'', LEDGER_FILE) = Some a"
  "files (storeOf a b c) (''/repo'', PROMISES_FILE) = Some b"
  "files (storeOf a b c) (''/repo'', REPORTS_FILE) = Some c"
  "dirs (storeOf a b c) = {''/repo''}"
  by (simp_all add: storeOf_def)

lemma read_store_init:
  "readLedger pf store_init ''/repo'' = Inr []"
  "readPromises pfP store_init ''/repo'' = Inr []"
  "readReports pfR store_init ''/repo'' = Inr []"
  by (simp_all add: readLedger_lines readPromises_lines readReports_lines readFileSync_def
      getLedgerPath_def getPromisesPath_def getReportsPath_def store_init_def store_files
      nonBlankLines_Nil)

lemma read_store_one_entry: "readLedger entryPlatform store_one_entry ''/repo'' = Inr [entry1]"
  by (simp add: readLedger_lines readFileSync_def getLedgerPath_def store_one_entry_def
      store_files nonBlankLines_jsonl clean_samples entryPlatform_parse)

lemma read_store_two_promises:
  "readPromises promisePlatform store_two_promises ''/repo'' = Inr [promiseA, promiseB]"
  by (simp add: readPromises_lines readFileSync_def getPromisesPath_def store_two_promises_def
      store_files nonBlankLines_jsonl clean_samples promisePlatform_parse)

lemma read_store_fulfilled:
  "readPromises promisePlatform store_fulfilled ''/repo'' = Inr [promiseA_fulfilled, promiseB]"
  by (simp add: readPromises_lines readFileSync_def getPromisesPath_def store_fulfilled_def
      store_files nonBlankLines_jsonl clean_samples promisePlatform_parse)


lemma store_blank_end_lines:
  "unterminated (line_entry1 @ [nl, nl]) = []"
  "untrimmedLines (line_entry1 @ [nl, nl]) = [line_entry1]"
  "nonBlankLines (line_entry1 @ [nl, nl]) = [line_entry1]"
proof -
  have c: "line_entry1 \<noteq> []" "\<not> isWhiteSpace (hd line_entry1)" "nl \<notin> set line_entry1"
    using clean_samples(1) by (simp_all add: cleanLine_def)
  show "unterminated (line_entry1 @ [nl, nl]) = []"
    using unterminated_append[of line_entry1 "[nl]"] unterminated_append[of "[]" "[]"]
    by (simp add: unterminated_Nil)
  show u: "untrimmedLines (line_entry1 @ [nl, nl]) = [line_entry1]"
    using untrimmedLines_one[OF c, of "[nl]"] by (simp add: isWhiteSpace_nl)
  show "nonBlankLines (line_entry1 @ [nl, nl]) = [line_entry1]"
    by (simp add: nonBlankLines_untrimmed u trimEnd_clean clean_samples)
qed

lemma form_feed: "isWhiteSpace (CHR 0x0C)" "CHR 0x0C \<noteq> nl"
  by (simp_all add: isWhiteSpace_def nl_def)

lemma store_form_feed_lines:
  "unterminated (line_entry1 @ [CHR 0x0C, nl]) = []"
  "untrimmedLines (line_entry1 @ [CHR 0x0C, nl]) = [line_entry1 @ [CHR 0x0C]]"
  "nonBlankLines (line_entry1 @ [CHR 0x0C, nl]) = [line_entry1]"
  "parse entryPlatform (line_entry1 @ [CHR 0x0C]) = Inl ''Unexpected token''"
proof -
  have c: "line_entry1 @ [CHR 0x0C] \<noteq> []" "\<not> isWhiteSpace (hd (line_entry1 @ [CHR 0x0C]))"
    "nl \<notin> set (line_entry1 @ [CHR 0x0C])"
    using clean_samples(1) form_feed by (simp_all add: cleanLine_def)
  show "unterminated (line_entry1 @ [CHR 0x0C, nl]) = []"
    using unterminated_append[of "line_entry1 @ [CHR 0x0C]" "[]"] by (simp add: unterminated_Nil)
  show u: "untrimmedLines (line_entry1 @ [CHR 0x0C, nl]) = [line_entry1 @ [CHR 0x0C]]"
    using untrimmedLines_one[OF c, of "[]"] by simp
  have "trimEnd (line_entry1 @ [CHR 0x0C]) = line_entry1"
    using trimEnd_append_drop[of "[CHR 0x0C]" line_entry1] form_feed
    by (simp add: trimEnd_clean clean_samples)
  then show "nonBlankLines (line_entry1 @ [CHR 0x0C, nl]) = [line_entry1]"
    by (simp add: nonBlankLines_untrimmed u)
  have "line_entry1 @ [CHR 0x0C] \<noteq> line_entry2"
  proof
    assume "line_entry1 @ [CHR 0x0C] = line_entry2"
    then have "last line_entry2 = CHR 0x0C" by (metis last_snoc)
    then show False using clean_samples(2) form_feed by (simp add: cleanLine_def)
  qed
  then show "parse entryPlatform (line_entry1 @ [CHR 0x0C]) = Inl ''Unexpected token''"
    by (simp add: entryPlatform_def tablePlatform_def)
qed

lemma store_unterminated_lines:
  "nonBlankLines line_entry1 = [line_entry1]"
  "nonBlankLines (line_entry1 @ line_entry2 @ [nl]) = [line_entry1 @ line_entry2]"
  "parse entryPlatform (line_entry1 @ line_entry2) = Inl ''Unexpected token''"
proof -
  have n: "nl \<notin> set line_entry1" "line_entry1 \<noteq> []" "line_entry2 \<noteq> []"
    using clean_samples by (simp_all add: cleanLine_def)
  show "nonBlankLines line_entry1 = [line_entry1]"
    using n nonblank_clean[OF clean_samples(1)]
    by (simp add: nonBlankLines_def trim_clean clean_samples splitOn_no_sep)
  have "nonBlankLines (jsonl [line_entry1 @ line_entry2]) = [line_entry1 @ line_entry2]"
    by (intro nonBlankLines_jsonl) (simp add: cleanLine_append clean_samples)
  then show "nonBlankLines (line_entry1 @ line_entry2 @ [nl]) = [line_entry1 @ line_entry2]"
    by (simp add: jsonl_Cons jsonl_Nil)
  show "parse entryPlatform (line_entry1 @ line_entry2) = Inl ''Unexpected token''"
    using n by (simp add: entryPlatform_def tablePlatform_def)
qed

lemma sample_intents:
  "intent (reasoning entry1) = ''add feature''" "intent (reasoning entry2) = ''remove feature''"
  "intent (reasoning entry3) = ''add feature''"
  by (simp_all add: entry1_def entry2_def entry3_def)

lemma sample_touch_a_ts:
  "list_ex (\<lambda>a. str_includes (artifact_path a) ''a.ts'') (artifacts entry1)"
  "list_ex (\<lambda>a. str_includes (artifact_path a) ''a.ts'') (artifacts entry2)"
  "list_ex (\<lambda>a. str_includes (artifact_path a) ''a.ts'') (artifacts entry3)"
  "artifact_path (hd (artifacts entry3)) = ''src/a.ts''"
  by (simp_all add: entry1_def entry2_def entry3_def)

section \<open>The claims\<close>

subsection \<open>C10: reading the last zero records\<close>

text \<open>
  C10. For every store state, \<open>readLastN(root, 0)\<close> returns what \<open>readLedger(root)\<close> returns,
  the entire list of records and not the empty list, because \<open>entries.slice(-0)\<close> is
  \<open>entries.slice(0)\<close>; likewise \<open>readLastNPromises\<close> and \<open>readLastNReports\<close> with \<open>n = 0\<close>.
\<close>

theorem readLastN_zero_whole_list:
  "readLastN pf s rootDir 0 = readLedger pf s rootDir
   \<and> readLastNPromises pfP s rootDir 0 = readPromises pfP s rootDir
   \<and> readLastNReports pfR s rootDir 0 = readReports pfR s rootDir"
  by (simp add: readLastN_def readLastNPromises_def readLastNReports_def js_slice_zero
      split: sum.splits)

text \<open>On the sample ledger with one entry, the last zero entries are that one entry.\<close>

theorem readLastN_zero_whole_list_witness:
  "readLastN entryPlatform store_one_entry ''/repo'' 0 = Inr [entry1]"
  using readLastN_zero_whole_list[of entryPlatform store_one_entry "''/repo''"]
  by (simp add: read_store_one_entry)

subsection \<open>C4: a failed append leaves the ledger untouched\<close>

text \<open>
  C4. For every store state and every invalid entry, \<open>appendEntry(root, e)\<close> fails with the
  schema-validation error and leaves the ledger file unchanged: the file system after the
  call, and so the ledger file's content, is the one before the call. \<open>appendEntry\<close> does
  not look into the entry, so this holds for a value of any shape that the validator
  refuses, an entry without \<open>reasoning.intent\<close> among them.
\<close>

theorem appendEntry_invalid_unchanged:
  assumes "\<not> isValidEntry pf entry"
  shows "fst (appendEntry pf s rootDir entry) = Inl (InvalidEntry (getValidationErrors pf entry))
         \<and> snd (appendEntry pf s rootDir entry) = s
         \<and> files (snd (appendEntry pf s rootDir entry)) (getLedgerPath rootDir)
             = files s (getLedgerPath rootDir)"
  using assms by (simp add: appendEntry_def)

text \<open>The sample entry with confidence 2 is refused, and the ledger still holds its one line.\<close>

theorem appendEntry_invalid_unchanged_witness:
  "\<not> isValidEntry entryPlatform entryBad
   \<and> fst (appendEntry entryPlatform store_one_entry ''/repo'' entryBad)
       = Inl (InvalidEntry [''must match the schema''])
   \<and> snd (appendEntry entryPlatform store_one_entry ''/repo'' entryBad) = store_one_entry
   \<and> files (snd (appendEntry entryPlatform store_one_entry ''/repo'' entryBad)) (''/repo'', LEDGER_FILE)
       = Some (jsonl [line_entry1])"
proof -
  have bad: "\<not> isValidEntry entryPlatform entryBad"
    by (simp add: isValidEntry_def entryPlatform_validate)
  have errs: "getValidationErrors entryPlatform entryBad = [''must match the schema'']"
    using entryPlatform_validate(3)
    by (simp add: getValidationErrors_def entryPlatform_def tablePlatform_def)
  from appendEntry_invalid_unchanged[OF bad, of store_one_entry "''/repo''"] bad errs
  show ?thesis
    by (simp add: getLedgerPath_def store_one_entry_def store_files)
qed

subsection \<open>C5: a malformed line aborts the read\<close>




subsection \<open>C7: append, then read\<close>

text \<open>
  C7, as the code has it. For every valid entry that round-trips through JSON and every
  store state whose ledger file is absent or takes the line of the entry, and which
  \<open>readLedger\<close> reads as \<open>es\<close>: \<open>appendEntry\<close> succeeds and \<open>readLedger\<close> then returns \<open>es\<close>
  followed by the entry, so a list that contains it. Likewise for promises with
  \<open>appendPromise\<close> and \<open>readPromises\<close>, and for reports with \<open>appendReport\<close> and \<open>readReports\<close>.
  A file takes the line when only white space follows its last newline and the parser gives
  for its last non-blank line the same with its trailing white space as without, and for
  the new line behind that white space the same as for the line alone; blank lines and
  white space that the parser skips do not matter.
\<close>

theorem append_then_readAll:
  "(isValidEntry pfE e \<and> roundTrips pfE e
      \<and> takesLine pfE (readFileSync s (getLedgerPath rootDir)) (stringify pfE e)
      \<and> readLedger pfE s rootDir = Inr es
    \<longrightarrow> fst (appendEntry pfE s rootDir e) = Inr ()
        \<and> readLedger pfE (snd (appendEntry pfE s rootDir e)) rootDir = Inr (es @ [e])
        \<and> e \<in> set (es @ [e]))
   \<and> (isValidPromise pfP p \<and> roundTrips pfP p
      \<and> takesLine pfP (readFileSync s (getPromisesPath rootDir)) (stringify pfP p)
      \<and> readPromises pfP s rootDir = Inr ps
    \<longrightarrow> fst (appendPromise pfP s rootDir p) = Inr ()
        \<and> readPromises pfP (snd (appendPromise pfP s rootDir p)) rootDir = Inr (ps @ [p])
        \<and> p \<in> set (ps @ [p]))
   \<and> (isValidReport pfR r \<and> roundTrips pfR r
      \<and> takesLine pfR (readFileSync s (getReportsPath rootDir)) (stringify pfR r)
      \<and> readReports pfR s rootDir = Inr rs
    \<longrightarrow> fst (appendReport pfR s rootDir r) = Inr ()
        \<and> readReports pfR (snd (appendReport pfR s rootDir r)) rootDir = Inr (rs @ [r])
        \<and> r \<in> set (rs @ [r]))"
  using readLedger_after_appendEntry[of pfE e s rootDir es]
    readPromises_after_appendPromise[of pfP p s rootDir ps]
    readReports_after_appendReport[of pfR r s rootDir rs]
  by simp

text \<open>On the sample ledger that ends with an empty line, a second entry is read back after
  the first; on the freshly initialised store, the appended promise and report are read
  back.\<close>

theorem append_then_readAll_witness:
  "isValidEntry entryPlatform entry2 \<and> roundTrips entryPlatform entry2
   \<and> readFileSync store_blank_end (getLedgerPath ''/repo'') = line_entry1 @ [nl, nl]
   \<and> takesLine entryPlatform (line_entry1 @ [nl, nl]) (stringify entryPlatform entry2)
   \<and> readLedger entryPlatform store_blank_end ''/repo'' = Inr [entry1]
   \<and> readLedger entryPlatform (snd (appendEntry entryPlatform store_blank_end ''/repo'' entry2))
        ''/repo'' = Inr [entry1, entry2]
   \<and> isValidPromise promisePlatform promiseA \<and> roundTrips promisePlatform promiseA
   \<and> readFileSync store_init (getPromisesPath ''/repo'') = []
   \<and> takesLine promisePlatform [] (stringify promisePlatform promiseA)
   \<and> readPromises promisePlatform store_init ''/repo'' = Inr []
   \<and> readPromises promisePlatform (snd (appendPromise promisePlatform store_init ''/repo'' promiseA))
        ''/repo'' = Inr [promiseA]
   \<and> isValidReport reportPlatform report1 \<and> roundTrips reportPlatform report1
   \<and> readFileSync store_init (getReportsPath ''/repo'') = []
   \<and> takesLine reportPlatform [] (stringify reportPlatform report1)
   \<and> readReports reportPlatform store_init ''/repo'' = Inr []
   \<and> readReports reportPlatform (snd (appendReport reportPlatform store_init ''/repo'' report1))
        ''/repo'' = Inr [report1]"
proof -
  have v: "isValidEntry entryPlatform entry2" "isValidPromise promisePlatform promiseA"
    "isValidReport reportPlatform report1"
    by (simp_all add: isValidEntry_def isValidPromise_def isValidReport_def
        entryPlatform_validate reportPlatform_codec promisePlatform_def tablePlatform_def)
  have f: "readFileSync store_blank_end (getLedgerPath ''/repo'') = line_entry1 @ [nl, nl]"
    "readFileSync store_init (getPromisesPath ''/repo'') = []"
    "readFileSync store_init (getReportsPath ''/repo'') = []"
    by (simp_all add: readFileSync_def getLedgerPath_def getPromisesPath_def getReportsPath_def
        store_blank_end_def store_init_def store_files)
  have t: "takesLine entryPlatform (line_entry1 @ [nl, nl]) (stringify entryPlatform entry2)"
    by (simp add: takesLine_def store_blank_end_lines trimEnd_clean clean_samples)
  have rd: "readLedger entryPlatform store_blank_end ''/repo'' = Inr [entry1]"
    by (simp add: readLedger_lines f store_blank_end_lines entryPlatform_parse)
  note entries = append_then_readAll
    [where pfE = entryPlatform and e = entry2 and s = store_blank_end and rootDir = "''/repo''"
       and es = "[entry1]", THEN conjunct1]
  note others = append_then_readAll
    [where pfP = promisePlatform and p = promiseA and ps = "[]" and pfR = reportPlatform
       and r = report1 and rs = "[]" and s = store_init and rootDir = "''/repo''",
     THEN conjunct2]
  from entries others show ?thesis
    using v f t rd by (simp add: sample_roundTrips read_store_init takesLine_Nil)
qed

text \<open>
  C7 as stated, for every store state, fails in three ways. In the store whose ledger holds a
  malformed line, appending the valid sample entry succeeds, and \<open>readLedger\<close> then throws
  for line 1 instead of returning a list. In the store whose ledger has no newline after
  its only line, which \<open>readLedger\<close> reads as the first entry, the appended text continues
  that line, and \<open>readLedger\<close> then throws for line 1. And in the store whose only line ends
  with a form feed, which the read trims off as long as the line is the last one, the line
  is parsed with the form feed once the new line follows it, and \<open>readLedger\<close> throws for
  line 1.
\<close>

theorem append_then_readAll_counterexample:
  "isValidEntry entryPlatform entry1
   \<and> fst (appendEntry entryPlatform store_malformed ''/repo'' entry1) = Inr ()
   \<and> readLedger entryPlatform (snd (appendEntry entryPlatform store_malformed ''/repo'' entry1)) ''/repo''
       = Inl (InvalidJson 1 ''Unexpected token'')
   \<and> isValidEntry entryPlatform entry2
   \<and> readLedger entryPlatform store_unterminated ''/repo'' = Inr [entry1]
   \<and> fst (appendEntry entryPlatform store_unterminated ''/repo'' entry2) = Inr ()
   \<and> readLedger entryPlatform (snd (appendEntry entryPlatform store_unterminated ''/repo'' entry2)) ''/repo''
       = Inl (InvalidJson 1 ''Unexpected token'')
   \<and> readLedger entryPlatform store_form_feed ''/repo'' = Inr [entry1]
   \<and> fst (appendEntry entryPlatform store_form_feed ''/repo'' entry2) = Inr ()
   \<and> readLedger entryPlatform (snd (appendEntry entryPlatform store_form_feed ''/repo'' entry2)) ''/repo''
       = Inl (InvalidJson 1 ''Unexpected token'')"
proof -
  have a: "isValidEntry entryPlatform entry1
   \<and> fst (appendEntry entryPlatform store_malformed ''/repo'' entry1) = Inr ()
   \<and> readLedger entryPlatform (snd (appendEntry entryPlatform store_malformed ''/repo'' entry1)) ''/repo''
       = Inl (InvalidJson 1 ''Unexpected token'')"
    by (simp add: isValidEntry_def entryPlatform_validate appendEntry_def Let_def
      readLedger_lines readFileSync_def appendFileSync_def getLedgerPath_def store_malformed_def
      store_files jsonl_snoc nonBlankLines_jsonl clean_samples entryPlatform_stringify
      entryPlatform_parse)
  have b: "isValidEntry entryPlatform entry2
   \<and> readLedger entryPlatform store_unterminated ''/repo'' = Inr [entry1]
   \<and> fst (appendEntry entryPlatform store_unterminated ''/repo'' entry2) = Inr ()
   \<and> readLedger entryPlatform (snd (appendEntry entryPlatform store_unterminated ''/repo'' entry2)) ''/repo''
       = Inl (InvalidJson 1 ''Unexpected token'')"
    by (simp add: isValidEntry_def entryPlatform_validate appendEntry_def Let_def
      readLedger_lines readFileSync_def appendFileSync_def getLedgerPath_def store_unterminated_def
      store_files store_unterminated_lines entryPlatform_stringify entryPlatform_parse)
  have l: "nonBlankLines ((line_entry1 @ [CHR 0x0C, nl]) @ line_entry2 @ [nl])
             = [line_entry1 @ [CHR 0x0C], line_entry2]"
    using lines_after_append_line[of "line_entry1 @ [CHR 0x0C, nl]" line_entry2]
    by (simp add: store_form_feed_lines clean_samples)
  have c: "readLedger entryPlatform store_form_feed ''/repo'' = Inr [entry1]
   \<and> fst (appendEntry entryPlatform store_form_feed ''/repo'' entry2) = Inr ()
   \<and> readLedger entryPlatform (snd (appendEntry entryPlatform store_form_feed ''/repo'' entry2)) ''/repo''
       = Inl (InvalidJson 1 ''Unexpected token'')"
    using l
    by (simp add: isValidEntry_def entryPlatform_validate appendEntry_def Let_def
      readLedger_lines readFileSync_def appendFileSync_def getLedgerPath_def store_form_feed_def
      store_files store_form_feed_lines entryPlatform_stringify entryPlatform_parse)
  from a b c show ?thesis by simp
qed

subsection \<open>C3: the conflict check\<close>

text \<open>
  C3, for the conflict check as the specification gives it. For every entry log, file path
  \<open>f\<close> and proposed intent \<open>i\<close>: the matching entries are those with an artifact whose path
  includes \<open>f\<close> as a substring, which are the entries \<open>readByFile\<close> returns for \<open>f\<close>; the
  check scans the five most recent of them, all of them when there are fewer. It returns no
  conflict exactly when every scanned entry has the intent \<open>i\<close>; a conflict it returns is
  with a scanned entry and that entry's intent, which is not \<open>i\<close>; and when some scanned
  entry has an intent that is not \<open>i\<close>, it returns the conflict with such an entry and its
  intent.
\<close>

theorem conflictCheck_scans_last_five:
  "let matching = filter (\<lambda>e. list_ex (\<lambda>a. str_includes (artifact_path a) f) (artifacts e)) ledger;
       scanned = drop (length matching - 5) matching
   in (readLedger pf st rootDir = Inr ledger \<longrightarrow> readByFile pf st rootDir f = Inr matching)
      \<and> length scanned = min 5 (length matching)
      \<and> matching = take (length matching - 5) matching @ scanned
      \<and> (conflictCheck f i ledger = NoConflict \<longleftrightarrow> (\<forall>e\<in>set scanned. intent (reasoning e) = i))
      \<and> (\<forall>e p. conflictCheck f i ledger = Conflict e p
             \<longrightarrow> e \<in> set scanned \<and> p = intent (reasoning e) \<and> p \<noteq> i)
      \<and> ((\<exists>e\<in>set scanned. intent (reasoning e) \<noteq> i)
          \<longrightarrow> (\<exists>e\<in>set scanned. intent (reasoning e) \<noteq> i
                 \<and> conflictCheck f i ledger = Conflict e (intent (reasoning e))))"
proof -
  define matching
    where "matching = filter (\<lambda>e. list_ex (\<lambda>a. str_includes (artifact_path a) f) (artifacts e)) ledger"
  define scanned where "scanned = drop (length matching - 5) matching"
  let ?P = "\<lambda>e. intent (reasoning e) \<noteq> i"
  have d: "conflictCheck f i ledger =
             (case find ?P scanned of None \<Rightarrow> NoConflict | Some e \<Rightarrow> Conflict e (intent (reasoning e)))"
    by (simp add: conflictCheck_def Let_def matching_def scanned_def)
  have r: "readLedger pf st rootDir = Inr ledger \<longrightarrow> readByFile pf st rootDir f = Inr matching"
    by (simp add: readByFile_includes matching_def)
  have l: "length scanned = min 5 (length matching)"
    by (simp add: scanned_def)
  have t: "matching = take (length matching - 5) matching @ scanned"
    by (simp add: scanned_def)
  have a: "conflictCheck f i ledger = NoConflict \<longleftrightarrow> (\<forall>e\<in>set scanned. intent (reasoning e) = i)"
    unfolding d using find_differs(1)[of ?P scanned] by (auto split: option.splits)
  have b: "\<forall>e p. conflictCheck f i ledger = Conflict e p
             \<longrightarrow> e \<in> set scanned \<and> p = intent (reasoning e) \<and> p \<noteq> i"
    unfolding d using find_differs(2)[of ?P scanned] by (auto split: option.splits)
  have c: "(\<exists>e\<in>set scanned. intent (reasoning e) \<noteq> i)
          \<longrightarrow> (\<exists>e\<in>set scanned. intent (reasoning e) \<noteq> i
                 \<and> conflictCheck f i ledger = Conflict e (intent (reasoning e)))"
  proof
    assume "\<exists>e\<in>set scanned. intent (reasoning e) \<noteq> i"
    from find_differs(3)[of scanned ?P, OF this] obtain x
      where x: "x \<in> set scanned" "find ?P scanned = Some x" by blast
    from find_differs(2)[OF x(2)] have "intent (reasoning x) \<noteq> i" by simp
    with x show "\<exists>e\<in>set scanned. intent (reasoning e) \<noteq> i
                 \<and> conflictCheck f i ledger = Conflict e (intent (reasoning e))"
      unfolding d by auto
  qed
  show ?thesis
    unfolding Let_def matching_def[symmetric] scanned_def[symmetric]
    using r l t a b c by blast
qed

text \<open>
  A log of six entries that touch \<open>a.ts\<close>, the oldest one under \<open>src/a.ts\<close> with the intent
  \<open>add feature\<close> and the five most recent with \<open>remove feature\<close>: the check of \<open>a.ts\<close> with
  \<open>remove feature\<close> scans the five and reports no conflict; on the log without its last
  entry the oldest one is among the five, and the check reports it. Scenario A: against the
  log that holds the entry touching \<open>a.ts\<close> with the intent \<open>add feature\<close>, which
  \<open>readByFile\<close> returns for \<open>a.ts\<close>, the check with \<open>remove feature\<close> reports that entry and
  its intent, and the check with \<open>add feature\<close> reports no conflict.
\<close>

theorem conflictCheck_scans_last_five_witness:
  "filter (\<lambda>e. list_ex (\<lambda>a. str_includes (artifact_path a) ''a.ts'') (artifacts e))
      [entry3, entry2, entry2, entry2, entry2, entry2]
     = [entry3, entry2, entry2, entry2, entry2, entry2]
   \<and> artifact_path (hd (artifacts entry3)) = ''src/a.ts''
   \<and> intent (reasoning entry3) = ''add feature''
   \<and> intent (reasoning entry2) = ''remove feature''
   \<and> conflictCheck ''a.ts'' ''remove feature'' [entry3, entry2, entry2, entry2, entry2, entry2]
       = NoConflict
   \<and> conflictCheck ''a.ts'' ''remove feature'' [entry3, entry2, entry2, entry2, entry2]
       = Conflict entry3 ''add feature''
   \<and> readLedger entryPlatform store_one_entry ''/repo'' = Inr [entry1]
   \<and> readByFile entryPlatform store_one_entry ''/repo'' ''a.ts'' = Inr [entry1]
   \<and> conflictCheck ''a.ts'' ''remove feature'' [entry1] = Conflict entry1 ''add feature''
   \<and> conflictCheck ''a.ts'' ''add feature'' [entry1] = NoConflict"
proof -
  let ?six = "[entry3, entry2, entry2, entry2, entry2, entry2]"
  let ?five = "[entry3, entry2, entry2, entry2, entry2]"
  have m6: "filter (\<lambda>e. list_ex (\<lambda>a. str_includes (artifact_path a) ''a.ts'') (artifacts e)) ?six
              = ?six"
    and m5: "filter (\<lambda>e. list_ex (\<lambda>a. str_includes (artifact_path a) ''a.ts'') (artifacts e)) ?five
              = ?five"
    and m1: "filter (\<lambda>e. list_ex (\<lambda>a. str_includes (artifact_path a) ''a.ts'') (artifacts e)) [entry1]
              = [entry1]"
    by (simp_all add: sample_touch_a_ts)
  have s6: "drop (length ?six - 5) ?six = [entry2, entry2, entry2, entry2, entry2]"
    and s5: "drop (length ?five - 5) ?five = ?five"
    and s1: "drop (length [entry1] - 5) [entry1] = [entry1]"
    by simp_all
  note window = conflictCheck_scans_last_five
    [of "''a.ts''" ?six entryPlatform store_one_entry "''/repo''" "''remove feature''", unfolded Let_def m6 s6,
     THEN conjunct2, THEN conjunct2, THEN conjunct2, THEN conjunct1]
  note full = conflictCheck_scans_last_five
    [of "''a.ts''" ?five entryPlatform store_one_entry "''/repo''" "''remove feature''", unfolded Let_def m5 s5,
     THEN conjunct2, THEN conjunct2, THEN conjunct2, THEN conjunct2, THEN conjunct2]
  note one = conflictCheck_scans_last_five
    [of "''a.ts''" "[entry1]" entryPlatform store_one_entry "''/repo''" "''remove feature''",
     unfolded Let_def m1 s1]
  note same = conflictCheck_scans_last_five
    [of "''a.ts''" "[entry1]" entryPlatform store_one_entry "''/repo''" "''add feature''",
     unfolded Let_def m1 s1, THEN conjunct2, THEN conjunct2, THEN conjunct2, THEN conjunct1]
  have a: "conflictCheck ''a.ts'' ''remove feature'' ?six = NoConflict"
    using window by (simp add: sample_intents)
  have b: "conflictCheck ''a.ts'' ''remove feature'' ?five = Conflict entry3 ''add feature''"
    using full by (simp add: sample_intents)
  have c: "readByFile entryPlatform store_one_entry ''/repo'' ''a.ts'' = Inr [entry1]"
    using one[THEN conjunct1] by (simp add: read_store_one_entry)
  have d: "conflictCheck ''a.ts'' ''remove feature'' [entry1] = Conflict entry1 ''add feature''"
    using one[THEN conjunct2, THEN conjunct2, THEN conjunct2, THEN conjunct2, THEN conjunct2]
    by (simp add: sample_intents)
  have e: "conflictCheck ''a.ts'' ''add feature'' [entry1] = NoConflict"
    using same by (simp add: sample_intents)
  from a b c d e m6 show ?thesis
    by (simp add: sample_intents sample_touch_a_ts read_store_one_entry)
qed

subsection \<open>C8: what a successful resolve returns\<close>

text \<open>
  C8, as the code has it. For every readable promise store and every status \<open>st\<close>, when
  \<open>resolvePromise(root, id, st, resolvedBy?)\<close> succeeds it returns the first stored promise
  with that id, with its status set to \<open>st\<close> and its \<open>resolvedAt\<close> set to the clock reading
  taken in the call; the original \<open>timestamp\<close> is kept. So \<open>resolvedAt\<close> is at or after the
  original \<open>timestamp\<close> exactly when the clock reading is.
\<close>

theorem resolvePromise_returns_status_and_clock:
  assumes "readPromises pf s rootDir = Inr ps"
    and "fst (resolvePromise pf now s rootDir pid st resolver) = Inr (Some r)"
  shows "\<exists>p. find (\<lambda>q. promise_id q = pid) ps = Some p
           \<and> r = p\<lparr>status := st, resolvedBy := resolver, resolvedAt := Some now\<rparr>
           \<and> status r = st \<and> resolvedAt r = Some now
           \<and> promise_timestamp r = promise_timestamp p
           \<and> (promise_timestamp r \<le> the (resolvedAt r) \<longleftrightarrow> promise_timestamp p \<le> now)"
proof (cases "find (\<lambda>q. promise_id q = pid) ps")
  case None
  from resolvePromise_absent[OF assms(1) None, of now st resolver] assms(2)
  show ?thesis by simp
next
  case (Some p)
  from findIndex_find[OF Some] obtain i
    where i: "findIndex (\<lambda>q. promise_id q = pid) ps = Some i" and pi: "ps ! i = p" by blast
  from resolvePromise_found[OF assms(1) i, of now st resolver] assms(2) pi
  have "r = p\<lparr>status := st, resolvedBy := resolver, resolvedAt := Some now\<rparr>" by simp
  with Some show ?thesis by simp
qed

text \<open>Resolving the first sample promise on the second of January: the result is fulfilled
  and resolved at that reading, which is after the promise's time stamp.\<close>

theorem resolvePromise_returns_status_and_clock_witness:
  "readPromises promisePlatform store_two_promises ''/repo'' = Inr [promiseA, promiseB]
   \<and> fst (resolvePromise promisePlatform ''2026-01-02T09:00:00.001Z'' store_two_promises ''/repo''
            ''abc1'' Fulfilled (Some ''r1'')) = Inr (Some promiseA_fulfilled)
   \<and> status promiseA_fulfilled = Fulfilled
   \<and> resolvedAt promiseA_fulfilled = Some ''2026-01-02T09:00:00.001Z''
   \<and> promise_timestamp promiseA_fulfilled \<le> the (resolvedAt promiseA_fulfilled)"
proof -
  have i: "findIndex (\<lambda>q. promise_id q = ''abc1'') [promiseA, promiseB] = Some 0"
    by (simp add: sample_promise_ids)
  have f: "fst (resolvePromise promisePlatform ''2026-01-02T09:00:00.001Z'' store_two_promises
             ''/repo'' ''abc1'' Fulfilled (Some ''r1'')) = Inr (Some promiseA_fulfilled)"
    by (simp add: resolvePromise_found[OF read_store_two_promises i] promiseA_fulfilled_def)
  from resolvePromise_returns_status_and_clock[OF read_store_two_promises f]
  show ?thesis
    using f by (simp add: read_store_two_promises promiseA_fulfilled_def promiseA_def)
qed

text \<open>
  C8 as stated fails where the clock of the resolving process reads earlier than the stored
  time stamp (the stores have no clock authority): resolving the first sample promise, of
  the first of January 2026, at a reading of the last of December 2025 succeeds with a
  \<open>resolvedAt\<close> that is before the \<open>timestamp\<close>.
\<close>

theorem resolvePromise_resolvedAt_counterexample:
  "fst (resolvePromise promisePlatform ''2025-12-31T23:59:59.000Z'' store_two_promises ''/repo''
          ''abc1'' Fulfilled None)
     = Inr (Some (promiseA\<lparr>status := Fulfilled, resolvedBy := None,
                           resolvedAt := Some ''2025-12-31T23:59:59.000Z''\<rparr>))
   \<and> promise_timestamp promiseA = ''2026-01-01T10:00:00.000Z''
   \<and> ''2025-12-31T23:59:59.000Z'' < ''2026-01-01T10:00:00.000Z''"
proof -
  have i: "findIndex (\<lambda>q. promise_id q = ''abc1'') [promiseA, promiseB] = Some 0"
    by (simp add: sample_promise_ids)
  show ?thesis
    by (simp add: resolvePromise_found[OF read_store_two_promises i] promiseA_def)
qed

subsection \<open>C9: resolving a promise that is already resolved\<close>

text \<open>
  C9. For every promise \<open>p\<close> that the store holds under its id and whose status is already
  terminal (fulfilled, broken, withdrawn or superseded), \<open>resolvePromise(root, p.id, st)\<close>
  still succeeds and overwrites the stored status with \<open>st\<close>: no guard rejects the
  transition. The stored records are read back through \<open>JSON.parse\<close>, so they are taken
  to round-trip.
\<close>

theorem resolvePromise_overwrites_terminal:
  assumes "readPromises pf s rootDir = Inr ps"
    and "find (\<lambda>q. promise_id q = pid) ps = Some p"
    and "status p \<in> {Fulfilled, Broken, Withdrawn, Superseded}"
    and "\<forall>q\<in>set ps. roundTrips pf q"
    and "roundTrips pf (p\<lparr>status := st, resolvedBy := resolver, resolvedAt := Some now\<rparr>)"
  shows "fst (resolvePromise pf now s rootDir pid st resolver)
           = Inr (Some (p\<lparr>status := st, resolvedBy := resolver, resolvedAt := Some now\<rparr>))
         \<and> status (p\<lparr>status := st, resolvedBy := resolver, resolvedAt := Some now\<rparr>) = st
         \<and> getPromiseById pf (snd (resolvePromise pf now s rootDir pid st resolver)) rootDir pid
             = Inr (Some (p\<lparr>status := st, resolvedBy := resolver, resolvedAt := Some now\<rparr>))"
  using resolvePromise_stored[OF assms(1,2,4,5)] by simp

text \<open>The sample store in which \<open>promiseA\<close> is fulfilled: resolving it to broken succeeds,
  and the store then holds it as broken.\<close>

theorem resolvePromise_overwrites_terminal_witness:
  "status promiseA_fulfilled = Fulfilled
   \<and> readPromises promisePlatform store_fulfilled ''/repo'' = Inr [promiseA_fulfilled, promiseB]
   \<and> fst (resolvePromise promisePlatform ''2026-01-03T09:00:00.000Z'' store_fulfilled ''/repo''
            ''abc1'' Broken None) = Inr (Some promiseA_broken)
   \<and> status promiseA_broken = Broken
   \<and> getPromiseById promisePlatform
         (snd (resolvePromise promisePlatform ''2026-01-03T09:00:00.000Z'' store_fulfilled ''/repo''
                 ''abc1'' Broken None)) ''/repo'' ''abc1'' = Inr (Some promiseA_broken)"
proof -
  have f: "find (\<lambda>q. promise_id q = ''abc1'') [promiseA_fulfilled, promiseB] = Some promiseA_fulfilled"
    by (simp add: sample_promise_ids)
  have t: "status promiseA_fulfilled \<in> {Fulfilled, Broken, Withdrawn, Superseded}"
    by (simp add: promiseA_fulfilled_def)
  have u: "promiseA_fulfilled\<lparr>status := Broken, resolvedBy := None,
             resolvedAt := Some ''2026-01-03T09:00:00.000Z''\<rparr> = promiseA_broken"
    by (simp add: promiseA_fulfilled_def promiseA_broken_def)
  have a: "\<forall>q\<in>set [promiseA_fulfilled, promiseB]. roundTrips promisePlatform q"
    by (simp add: sample_roundTrips)
  have b: "roundTrips promisePlatform (promiseA_fulfilled\<lparr>status := Broken, resolvedBy := None,
             resolvedAt := Some ''2026-01-03T09:00:00.000Z''\<rparr>)"
    by (simp add: u sample_roundTrips)
  from resolvePromise_overwrites_terminal[OF read_store_fulfilled f t a b]
  show ?thesis
    unfolding u by (simp add: read_store_fulfilled promiseA_fulfilled_def promiseA_broken_def)
qed

subsection \<open>C2: looking a promise up by an ambiguous prefix\<close>

text \<open>
  C2, as the code has it. For every readable promise store in which two or more promises
  have ids that start with the reference \<open>ref\<close>, the lookup of the \<open>promise resolve\<close> command
  does not fail: it selects the first of them in file order, and the command resolves that
  promise. It reports the selected promise with the new status, the time of the call and no
  resolver, and it rewrites the promise file with that record in the place of the selected
  one; where the records round-trip through JSON, the store then holds the records as
  before with the selected one resolved. There is no error for an ambiguous reference.
\<close>

theorem promiseResolveCommand_selects_first_match:
  assumes "readPromises pf s rootDir = Inr ps"
    and "map_of validStatuses statusOption = Some st"
    and "filter (\<lambda>q. startsWith (promise_id q) ref) ps = p # p2 # others"
    and "p' = p\<lparr>status := st, resolvedBy := None, resolvedAt := Some now\<rparr>"
    and "(result, s') = promiseResolveCommand pf now s rootDir ref statusOption"
  shows "findPromiseByRef ps ref = Some p
         \<and> result = Inr (PromiseResolved p')
         \<and> (\<exists>i. findIndex (\<lambda>q. startsWith (promise_id q) ref) ps = Some i \<and> ps ! i = p
                \<and> files s' (getPromisesPath rootDir)
                    = Some (joinWith nl (map (stringify pf) (ps[i := p'])) @ [nl])
                \<and> ((\<forall>q\<in>set ps. roundTrips pf q) \<and> roundTrips pf p'
                    \<longrightarrow> readPromises pf s' rootDir = Inr (ps[i := p'])))
         \<and> ((\<forall>q\<in>set ps. roundTrips pf q) \<and> roundTrips pf p'
             \<longrightarrow> getPromiseById pf s' rootDir (promise_id p) = Inr (Some p'))"
proof -
  from assms(3) have f: "findPromiseByRef ps ref = Some p"
    unfolding findPromiseByRef_startsWith by (rule find_filter_hd)
  from promiseResolveCommand_first_match[OF assms(1,2) f, of now] obtain i
    where i: "findIndex (\<lambda>q. startsWith (promise_id q) ref) ps = Some i" and pi: "ps ! i = p"
      and ii: "findIndex (\<lambda>q. promise_id q = promise_id p) ps = Some i"
      and c: "promiseResolveCommand pf now s rootDir ref statusOption
               = (Inr (PromiseResolved p'),
                  writeFileSync s (getPromisesPath rootDir)
                    (joinWith nl (map (stringify pf) (ps[i := p'])) @ [nl]))"
    unfolding assms(4) by blast
  from c assms(5) have res: "result = Inr (PromiseResolved p')"
    and s': "s' = writeFileSync s (getPromisesPath rootDir)
                    (joinWith nl (map (stringify pf) (ps[i := p'])) @ [nl])"
    by simp_all
  have fl: "files s' (getPromisesPath rootDir)
              = Some (joinWith nl (map (stringify pf) (ps[i := p'])) @ [nl])"
    by (simp add: s' writeFileSync_def)
  have len: "i < length ps" using findIndex_Some[OF i] by simp
  have idp: "promise_id p' = promise_id p" by (simp add: assms(4))
  have rd': "readPromises pf s' rootDir = Inr (ps[i := p'])"
    if rt: "\<forall>q\<in>set ps. roundTrips pf q" "roundTrips pf p'"
  proof -
    have ne: "ps[i := p'] \<noteq> []" using len by auto
    have all: "\<forall>q\<in>set (ps[i := p']). roundTrips pf q"
      using rt set_update_subset_insert[of ps i p'] by auto
    show ?thesis unfolding s' by (rule readPromises_after_rewrite[OF ne all])
  qed
  have stored: "getPromiseById pf s' rootDir (promise_id p) = Inr (Some p')"
    if rt: "\<forall>q\<in>set ps. roundTrips pf q" "roundTrips pf p'"
  proof -
    have "find (\<lambda>q. promise_id q = promise_id p) (ps[i := p']) = Some p'"
      using ii idp by (intro find_update_first) simp_all
    then show ?thesis by (simp add: getPromiseById_def rd'[OF rt])
  qed
  from f res i pi fl rd' stored show ?thesis by blast
qed

text \<open>The two sample promises \<open>abc1\<close> and \<open>abc2\<close>: resolving \<open>abc\<close> as broken resolves the
  first, and the store then holds \<open>abc1\<close> as broken and \<open>abc2\<close> as it was.\<close>

theorem promiseResolveCommand_selects_first_match_witness:
  "readPromises promisePlatform store_two_promises ''/repo'' = Inr [promiseA, promiseB]
   \<and> map_of validStatuses ''broken'' = Some Broken
   \<and> filter (\<lambda>q. startsWith (promise_id q) ''abc'') [promiseA, promiseB] = [promiseA, promiseB]
   \<and> roundTrips promisePlatform promiseA \<and> roundTrips promisePlatform promiseB
   \<and> roundTrips promisePlatform promiseA_broken
   \<and> findPromiseByRef [promiseA, promiseB] ''abc'' = Some promiseA
   \<and> fst (promiseResolveCommand promisePlatform ''2026-01-03T09:00:00.000Z'' store_two_promises
            ''/repo'' ''abc'' ''broken'')
       = Inr (PromiseResolved promiseA_broken)
   \<and> status promiseA = Active \<and> status promiseA_broken = Broken
   \<and> files (snd (promiseResolveCommand promisePlatform ''2026-01-03T09:00:00.000Z''
                    store_two_promises ''/repo'' ''abc'' ''broken''))
        (getPromisesPath ''/repo'')
       = Some (line_promiseA_broken @ nl # line_promiseB @ [nl])
   \<and> readPromises promisePlatform
        (snd (promiseResolveCommand promisePlatform ''2026-01-03T09:00:00.000Z''
                store_two_promises ''/repo'' ''abc'' ''broken'')) ''/repo''
       = Inr [promiseA_broken, promiseB]
   \<and> getPromiseById promisePlatform
        (snd (promiseResolveCommand promisePlatform ''2026-01-03T09:00:00.000Z''
                store_two_promises ''/repo'' ''abc'' ''broken'')) ''/repo'' ''abc1''
       = Inr (Some promiseA_broken)"
proof -
  let ?c = "promiseResolveCommand promisePlatform ''2026-01-03T09:00:00.000Z''
              store_two_promises ''/repo'' ''abc'' ''broken''"
  have v: "map_of validStatuses ''broken'' = Some Broken"
    by (simp add: validStatuses_def)
  have m: "filter (\<lambda>q. startsWith (promise_id q) ''abc'') [promiseA, promiseB]
             = promiseA # promiseB # []"
    by (simp add: startsWith_def sample_promise_ids)
  have p': "promiseA_broken = promiseA\<lparr>status := Broken, resolvedBy := None,
                                        resolvedAt := Some ''2026-01-03T09:00:00.000Z''\<rparr>"
    by (simp add: promiseA_broken_def promiseA_def)
  have c: "(fst ?c, snd ?c) = ?c" by simp
  have st: "status promiseA = Active" "status promiseA_broken = Broken"
    by (simp_all add: promiseA_def promiseA_broken_def)
  from promiseResolveCommand_selects_first_match[OF read_store_two_promises v m p' c]
  show ?thesis
    using v m st
    by (simp add: read_store_two_promises sample_roundTrips startsWith_def sample_promise_ids
        promisePlatform_stringify)
qed

text \<open>
  C2 as stated fails: the ids of the two sample promises both start with \<open>abc\<close>, and the
  lookup by \<open>abc\<close> yields the first one; the command resolves it and reports success.
\<close>

theorem ambiguous_prefix_counterexample:
  "startsWith (promise_id promiseA) ''abc'' \<and> startsWith (promise_id promiseB) ''abc''
   \<and> promise_id promiseA \<noteq> promise_id promiseB
   \<and> readPromises promisePlatform store_two_promises ''/repo'' = Inr [promiseA, promiseB]
   \<and> findPromiseByRef [promiseA, promiseB] ''abc'' = Some promiseA
   \<and> fst (promiseResolveCommand promisePlatform ''2026-01-02T09:00:00.000Z'' store_two_promises
            ''/repo'' ''abc'' ''fulfilled'')
       = Inr (PromiseResolved (promiseA\<lparr>status := Fulfilled, resolvedBy := None,
                                         resolvedAt := Some ''2026-01-02T09:00:00.000Z''\<rparr>))"
proof -
  have i: "findIndex (\<lambda>q. promise_id q = ''abc1'') [promiseA, promiseB] = Some 0"
    by (simp add: sample_promise_ids)
  have f: "findPromiseByRef [promiseA, promiseB] ''abc'' = Some promiseA"
    by (simp add: findPromiseByRef_def startsWith_def sample_promise_ids)
  show ?thesis
    using f
    by (simp add: promiseResolveCommand_def validStatuses_def read_store_two_promises
        resolvePromise_found[OF read_store_two_promises i] startsWith_def sample_promise_ids)
qed

subsection \<open>C6: a verdict on a promise that does not exist\<close>

text \<open>
  C6, as the code has it. For every root directory with a readable promise store and every
  promise id that no stored promise has, \<open>addVerdict\<close> returns \<open>null\<close>; it throws no error,
  appends no report and leaves every file as it was.
\<close>

theorem addVerdict_missing_promise_returns_null:
  assumes "readPromises pfP s rootDir = Inr ps"
    and "find (\<lambda>q. promise_id q = pid) ps = None"
  shows "fst (addVerdict pfP pfR uuid tReport tResolve s rootDir pid v reasoningText reporterAgent)
           = Inr None
         \<and> snd (addVerdict pfP pfR uuid tReport tResolve s rootDir pid v reasoningText reporterAgent)
           = s
         \<and> files (snd (addVerdict pfP pfR uuid tReport tResolve s rootDir pid v reasoningText
                         reporterAgent)) (getReportsPath rootDir)
           = files s (getReportsPath rootDir)"
  using addVerdict_absent[OF assms] by simp

text \<open>No sample promise has the id \<open>abc3\<close>: the verdict returns \<open>null\<close> and the reports file
  stays empty.\<close>

theorem addVerdict_missing_promise_returns_null_witness:
  "readPromises promisePlatform store_two_promises ''/repo'' = Inr [promiseA, promiseB]
   \<and> find (\<lambda>q. promise_id q = ''abc3'') [promiseA, promiseB] = None
   \<and> fst (addVerdict promisePlatform reportPlatform ''r1'' ''2026-01-02T09:00:00.000Z''
            ''2026-01-02T09:00:00.001Z'' store_two_promises ''/repo'' ''abc3'' VerdictBroken
            ''not done'' None) = Inr None
   \<and> files (snd (addVerdict promisePlatform reportPlatform ''r1'' ''2026-01-02T09:00:00.000Z''
            ''2026-01-02T09:00:00.001Z'' store_two_promises ''/repo'' ''abc3'' VerdictBroken
            ''not done'' None)) (getReportsPath ''/repo'') = Some []"
proof -
  have n: "find (\<lambda>q. promise_id q = ''abc3'') [promiseA, promiseB] = None"
    by (simp add: sample_promise_ids)
  have e: "files store_two_promises (getReportsPath ''/repo'') = Some []"
    by (simp add: getReportsPath_def store_two_promises_def store_files)
  from addVerdict_missing_promise_returns_null[OF read_store_two_promises n]
  show ?thesis
    using n e by (simp add: read_store_two_promises)
qed

text \<open>
  C6 as stated fails: on the sample store, the verdict on the unknown id \<open>zzz\<close> does not fail
  with an error; the call returns \<open>null\<close>.
\<close>

theorem addVerdict_not_found_counterexample:
  "find (\<lambda>q. promise_id q = ''zzz'') [promiseA, promiseB] = None
   \<and> fst (addVerdict promisePlatform reportPlatform ''r1'' ''2026-01-02T09:00:00.000Z''
            ''2026-01-02T09:00:00.001Z'' store_two_promises ''/repo'' ''zzz'' VerdictFulfilled
            ''done'' None) = Inr None
   \<and> \<not> isl (fst (addVerdict promisePlatform reportPlatform ''r1'' ''2026-01-02T09:00:00.000Z''
            ''2026-01-02T09:00:00.001Z'' store_two_promises ''/repo'' ''zzz'' VerdictFulfilled
            ''done'' None))"
  by (simp add: addVerdict_def getPromiseById_def read_store_two_promises sample_promise_ids)

subsection \<open>C1: a verdict sets the promise's status\<close>

text \<open>
  C1, as the code has it. For every promise \<open>p\<close> that the store holds under its id,
  \<open>addVerdict(root, p.id, v, reasoning)\<close> builds a report \<open>r\<close> with the verdict status \<open>v\<close>
  and the promise id of \<open>p\<close>. When the report validator refuses \<open>r\<close>, the call throws the
  validation error and changes nothing: no report is appended and \<open>p\<close> keeps its status.
  When the validator accepts \<open>r\<close>, the call appends the line of \<open>r\<close> to the reports file;
  where the reports file takes that line, \<open>readReports\<close> then returns \<open>r\<close> as the last
  report. With \<open>v\<close> fulfilled or broken the call returns \<open>p\<close> with the status \<open>v\<close> and the
  store then holds \<open>p\<close> with that status; with \<open>v\<close> partial it returns \<open>p\<close> as it was and the
  promise file is untouched, so an active promise stays active.
\<close>

theorem addVerdict_propagates_verdict:
  assumes "readPromises pfP s rootDir = Inr ps"
    and "find (\<lambda>q. promise_id q = pid) ps = Some p"
    and "r = createVerdictReport uuid tReport
               \<lparr>reporter_agent = (case reporterAgent of None \<Rightarrow> ''human'' | Some a \<Rightarrow> a),
                role = Human, reporter_session = None\<rparr>
               pid \<lparr>verdict_status = v, verdict_reasoning = reasoningText\<rparr> None None None"
    and "p' = p\<lparr>status := (if v = VerdictFulfilled then Fulfilled else Broken),
                 resolvedBy := Some uuid, resolvedAt := Some tResolve\<rparr>"
    and "(result, s') =
           addVerdict pfP pfR uuid tReport tResolve s rootDir pid v reasoningText reporterAgent"
  shows "verdict r = Some \<lparr>verdict_status = v, verdict_reasoning = reasoningText\<rparr>
         \<and> promiseId r = pid
         \<and> (\<not> isValidReport pfR r
            \<longrightarrow> result = Inl (InvalidReport (getReportValidationErrors pfR r)) \<and> s' = s)
         \<and> (isValidReport pfR r
            \<longrightarrow> readFileSync s' (getReportsPath rootDir)
                  = readFileSync s (getReportsPath rootDir) @ stringify pfR r @ [nl]
                \<and> (roundTrips pfR r
                     \<and> takesLine pfR (readFileSync s (getReportsPath rootDir)) (stringify pfR r)
                     \<and> readReports pfR s rootDir = Inr rs
                   \<longrightarrow> readReports pfR s' rootDir = Inr (rs @ [r]))
                \<and> (v = VerdictFulfilled \<longrightarrow> result = Inr (Some (r, p')) \<and> status p' = Fulfilled)
                \<and> (v = VerdictBroken \<longrightarrow> result = Inr (Some (r, p')) \<and> status p' = Broken)
                \<and> (v \<noteq> VerdictPartial \<and> (\<forall>q\<in>set ps. roundTrips pfP q) \<and> roundTrips pfP p'
                   \<longrightarrow> getPromiseById pfP s' rootDir pid = Inr (Some p'))
                \<and> (v = VerdictPartial
                   \<longrightarrow> result = Inr (Some (r, p))
                       \<and> files s' (getPromisesPath rootDir) = files s (getPromisesPath rootDir)
                       \<and> getPromiseById pfP s' rootDir pid = Inr (Some p)))"
proof -
  have rep: "verdict r = Some \<lparr>verdict_status = v, verdict_reasoning = reasoningText\<rparr>
         \<and> promiseId r = pid"
    by (simp add: assms(3) createVerdictReport_def)
  have refused: "result = Inl (InvalidReport (getReportValidationErrors pfR r)) \<and> s' = s"
    if "\<not> isValidReport pfR r"
    using addVerdict_invalid_report[OF assms(1,2,3) that, of tResolve] assms(5) by simp
  have accepted: "readFileSync s' (getReportsPath rootDir)
                  = readFileSync s (getReportsPath rootDir) @ stringify pfR r @ [nl]
                \<and> (roundTrips pfR r
                     \<and> takesLine pfR (readFileSync s (getReportsPath rootDir)) (stringify pfR r)
                     \<and> readReports pfR s rootDir = Inr rs
                   \<longrightarrow> readReports pfR s' rootDir = Inr (rs @ [r]))
                \<and> (v = VerdictFulfilled \<longrightarrow> result = Inr (Some (r, p')) \<and> status p' = Fulfilled)
                \<and> (v = VerdictBroken \<longrightarrow> result = Inr (Some (r, p')) \<and> status p' = Broken)
                \<and> (v \<noteq> VerdictPartial \<and> (\<forall>q\<in>set ps. roundTrips pfP q) \<and> roundTrips pfP p'
                   \<longrightarrow> getPromiseById pfP s' rootDir pid = Inr (Some p'))
                \<and> (v = VerdictPartial
                   \<longrightarrow> result = Inr (Some (r, p))
                       \<and> files s' (getPromisesPath rootDir) = files s (getPromisesPath rootDir)
                       \<and> getPromiseById pfP s' rootDir pid = Inr (Some p))"
    if "isValidReport pfR r"
    using addVerdict_valid_report[OF assms(1,2,3) that assms(4,5), of rs]
    by (elim conjE) (intro conjI)
  from rep refused accepted show ?thesis by blast
qed

text \<open>Scenario B on the sample store: the verdict \<open>fulfilled\<close> on \<open>abc1\<close> returns the report
  \<open>r1\<close> and the fulfilled promise, the store then holds the promise as fulfilled, and the
  reports file holds the report.\<close>

theorem addVerdict_propagates_verdict_witness:
  "readPromises promisePlatform store_two_promises ''/repo'' = Inr [promiseA, promiseB]
   \<and> find (\<lambda>q. promise_id q = ''abc1'') [promiseA, promiseB] = Some promiseA
   \<and> isValidReport reportPlatform report1
   \<and> fst scenarioB = Inr (Some (report1, promiseA_fulfilled))
   \<and> status promiseA = Active \<and> status promiseA_fulfilled = Fulfilled
   \<and> getPromiseById promisePlatform (snd scenarioB) ''/repo'' ''abc1'' = Inr (Some promiseA_fulfilled)
   \<and> readReports reportPlatform (snd scenarioB) ''/repo'' = Inr [report1]
   \<and> verdict report1 = Some \<lparr>verdict_status = VerdictFulfilled, verdict_reasoning = ''done''\<rparr>
   \<and> promiseId report1 = ''abc1''"
proof -
  have f: "find (\<lambda>q. promise_id q = ''abc1'') [promiseA, promiseB] = Some promiseA"
    by (simp add: sample_promise_ids)
  have r: "report1 = createVerdictReport ''r1'' ''2026-01-02T09:00:00.000Z''
               \<lparr>reporter_agent = (case None of None \<Rightarrow> ''human'' | Some a \<Rightarrow> a),
                role = Human, reporter_session = None\<rparr>
               ''abc1'' \<lparr>verdict_status = VerdictFulfilled, verdict_reasoning = ''done''\<rparr>
               None None None"
    by (simp add: report1_def createVerdictReport_def)
  have v: "isValidReport reportPlatform report1"
    by (simp add: isValidReport_def reportPlatform_codec)
  have p': "promiseA_fulfilled = promiseA\<lparr>status :=
                (if VerdictFulfilled = VerdictFulfilled then Fulfilled else Broken),
              resolvedBy := Some ''r1'', resolvedAt := Some ''2026-01-02T09:00:00.001Z''\<rparr>"
    by (simp add: promiseA_fulfilled_def)
  have c: "(fst scenarioB, snd scenarioB) =
             addVerdict promisePlatform reportPlatform ''r1'' ''2026-01-02T09:00:00.000Z''
               ''2026-01-02T09:00:00.001Z'' store_two_promises ''/repo'' ''abc1'' VerdictFulfilled
               ''done'' None"
    by (simp add: scenarioB_def)
  have w: "takesLine reportPlatform (readFileSync store_two_promises (getReportsPath ''/repo''))
             (stringify reportPlatform report1)"
    by (simp add: readFileSync_def getReportsPath_def store_two_promises_def store_files
        takesLine_Nil)
  have e: "readReports reportPlatform store_two_promises ''/repo'' = Inr []"
    by (simp add: readReports_lines readFileSync_def getReportsPath_def store_two_promises_def
        store_files nonBlankLines_Nil)
  have a: "\<forall>q\<in>set [promiseA, promiseB]. roundTrips promisePlatform q"
    by (simp add: sample_roundTrips)
  from addVerdict_propagates_verdict[OF read_store_two_promises f r p' c, where rs = "[]"]
  show ?thesis
    using f v w e a
    by (simp add: read_store_two_promises sample_roundTrips promiseA_def)
qed

text \<open>
  C1 as stated, for every promise in the store, fails where the report validator refuses
  the verdict report: on the sample store with the two promises, the verdict \<open>fulfilled\<close> on
  the active promise \<open>abc1\<close> throws the validation error and leaves the store as it was, so
  the promise is still active and the reports file is still empty.
\<close>

theorem addVerdict_refused_report_counterexample:
  "getPromiseById promisePlatform store_two_promises ''/repo'' ''abc1'' = Inr (Some promiseA)
   \<and> status promiseA = Active
   \<and> readReports refusingReportPlatform store_two_promises ''/repo'' = Inr []
   \<and> addVerdict promisePlatform refusingReportPlatform ''r1'' ''2026-01-02T09:00:00.000Z''
        ''2026-01-02T09:00:00.001Z'' store_two_promises ''/repo'' ''abc1'' VerdictFulfilled
        ''done'' None
       = (Inl (InvalidReport [''must match the schema'']), store_two_promises)"
proof -
  have e: "readReports refusingReportPlatform store_two_promises ''/repo'' = Inr []"
    by (simp add: readReports_lines readFileSync_def getReportsPath_def store_two_promises_def
        store_files nonBlankLines_Nil)
  have g: "getPromiseById promisePlatform store_two_promises ''/repo'' ''abc1'' = Inr (Some promiseA)"
    by (simp add: getPromiseById_def read_store_two_promises sample_promise_ids)
  have s: "status promiseA = Active" by (simp add: promiseA_def)
  have "addVerdict promisePlatform refusingReportPlatform ''r1'' ''2026-01-02T09:00:00.000Z''
        ''2026-01-02T09:00:00.001Z'' store_two_promises ''/repo'' ''abc1'' VerdictFulfilled
        ''done'' None
       = (Inl (InvalidReport [''must match the schema'']), store_two_promises)"
    by (simp add: addVerdict_def g Let_def appendReport_def isValidReport_def
        getReportValidationErrors_def refusingReportPlatform_def tablePlatform_def)
  with e g s show ?thesis by simp
qed

end
